theory Spec2Isabelle
  imports Main "HOL-Library.AList" "HOL-Library.Sublist" "HOL-Library.Char_ord"
    "HOL-Library.List_Lexorder"
begin

section \<open>Paths and the file system\<close>

text \<open>
  A path is the list of its components below one fixed anchor (the root or the working
  directory), as \<^verbatim>\<open>pathlib\<close> keeps them in \<^verbatim>\<open>parts\<close>. The order on paths that
  \<^verbatim>\<open>sorted\<close> uses is the lexicographic order on these lists, the components compared as
  strings; this is the order of \<^typ>\<open>string list\<close>.

  The file system is a tree. A directory lists its entries in the order in which
  \<^verbatim>\<open>os.scandir\<close> would return them; a regular file holds its text. There are no symbolic
  links and no permissions.
\<close>

type_synonym path = "string list"

datatype node = File string | Dir "(string \<times> node) list"

datatype entry = IsFile string | IsDir

datatype error =
    BadParameter
  | AssertionError
  | ValueError
  | FileExistsError
  | FileNotFoundError
  | IsADirectoryError
  | NotADirectoryError
  | ImportFailure string

fun lookup :: "node \<Rightarrow> path \<Rightarrow> node option" where
  "lookup n [] = Some n"
| "lookup (File c) (x # xs) = None"
| "lookup (Dir es) (x # xs) = (case map_of es x of None \<Rightarrow> None | Some ch \<Rightarrow> lookup ch xs)"

fun stat :: "node \<Rightarrow> path \<Rightarrow> entry option" where
  "stat (File c) [] = Some (IsFile c)"
| "stat (Dir es) [] = Some IsDir"
| "stat (File c) (x # xs) = None"
| "stat (Dir es) (x # xs) = (case map_of es x of None \<Rightarrow> None | Some ch \<Rightarrow> stat ch xs)"

text \<open>\<^verbatim>\<open>Path.is_dir\<close>, \<^verbatim>\<open>os.path.exists\<close>: both answer False where the path cannot be resolved.\<close>

definition is_dir :: "node \<Rightarrow> path \<Rightarrow> bool" where
  "is_dir fs p = (stat fs p = Some IsDir)"

definition path_exists :: "node \<Rightarrow> path \<Rightarrow> bool" where
  "path_exists fs p = (stat fs p \<noteq> None)"

definition is_file :: "node \<Rightarrow> path \<Rightarrow> bool" where
  "is_file fs p = (case stat fs p of Some (IsFile c) \<Rightarrow> True | _ \<Rightarrow> False)"

text \<open>
  \<^verbatim>\<open>os.makedirs(name, exist_ok=True)\<close>: every missing component is created, an existing
  directory is left as it is, and an existing component that is not a directory raises
  (\<^verbatim>\<open>FileExistsError\<close> for the last one, \<^verbatim>\<open>NotADirectoryError\<close> for one above it). A
  failure is met before the first directory is created, so a failed call changes nothing.
\<close>

fun makedirs_node :: "path \<Rightarrow> node \<Rightarrow> error + node" where
  "makedirs_node [] (Dir es) = Inr (Dir es)"
| "makedirs_node [] (File c) = Inl FileExistsError"
| "makedirs_node (x # xs) (File c) = Inl NotADirectoryError"
| "makedirs_node (x # xs) (Dir es) =
     (case makedirs_node xs (case map_of es x of None \<Rightarrow> Dir [] | Some ch \<Rightarrow> ch) of
        Inl e \<Rightarrow> Inl e
      | Inr ch' \<Rightarrow> Inr (Dir (AList.update x ch' es)))"

definition makedirs :: "node \<Rightarrow> path \<Rightarrow> error + node" where
  "makedirs fs name = makedirs_node name fs"

text \<open>
  \<^verbatim>\<open>Path.write_text\<close> opens the path for writing: a regular file is truncated and
  replaced, a missing file is created in an existing directory, and the call raises when
  the path is a directory or its parent cannot be resolved to a directory.
\<close>

fun write_node :: "path \<Rightarrow> string \<Rightarrow> node \<Rightarrow> error + node" where
  "write_node [] c (File old) = Inr (File c)"
| "write_node [] c (Dir es) = Inl IsADirectoryError"
| "write_node (x # xs) c (File old) = Inl NotADirectoryError"
| "write_node (x # xs) c (Dir es) =
     (case map_of es x of
        None \<Rightarrow> if xs = [] then Inr (Dir (AList.update x (File c) es)) else Inl FileNotFoundError
      | Some ch \<Rightarrow>
          (case write_node xs c ch of
             Inl e \<Rightarrow> Inl e
           | Inr ch' \<Rightarrow> Inr (Dir (AList.update x ch' es))))"

definition write_text :: "node \<Rightarrow> path \<Rightarrow> string \<Rightarrow> error + node" where
  "write_text fs p c = write_node p c fs"

text \<open>
  \<^verbatim>\<open>os.walk(top)\<close>, top-down and without following links: one triple
  \<^verbatim>\<open>(dirpath, dirnames, filenames)\<close> for the directory, then the triples of each
  subdirectory in turn. A \<^verbatim>\<open>top\<close> that is not a directory gives no triple.
\<close>

fun walk :: "path \<Rightarrow> node \<Rightarrow> (path \<times> string list \<times> string list) list"
  and walk_children :: "path \<Rightarrow> (string \<times> node) list \<Rightarrow> (path \<times> string list \<times> string list) list"
where
  "walk dirpath (File c) = []"
| "walk dirpath (Dir es) =
     (dirpath, map fst (filter (\<lambda>(n, ch). case ch of Dir _ \<Rightarrow> True | File _ \<Rightarrow> False) es),
           map fst (filter (\<lambda>(n, ch). case ch of Dir _ \<Rightarrow> False | File _ \<Rightarrow> True) es))
     # walk_children dirpath es"
| "walk_children dirpath [] = []"
| "walk_children dirpath ((n, ch) # es) = walk (dirpath @ [n]) ch @ walk_children dirpath es"

definition os_walk :: "node \<Rightarrow> path \<Rightarrow> (path \<times> string list \<times> string list) list" where
  "os_walk fs dirpath = (case lookup fs dirpath of None \<Rightarrow> [] | Some n \<Rightarrow> walk dirpath n)"

text \<open>
  Every directory of a real file system has pairwise different entry names; the tree is
  well formed when this holds at every level.
\<close>

fun wf_node :: "node \<Rightarrow> bool" and wf_entries :: "(string \<times> node) list \<Rightarrow> bool" where
  "wf_node (File c) = True"
| "wf_node (Dir es) = (distinct (map fst es) \<and> wf_entries es)"
| "wf_entries [] = True"
| "wf_entries ((n, ch) # es) = (wf_node ch \<and> wf_entries es)"

subsection \<open>Names and suffixes\<close>

text \<open>
  \<^verbatim>\<open>PurePath.name\<close> is the last component (empty for the anchor itself);
  \<^verbatim>\<open>PurePath.suffix\<close> is the part of the name from its last dot on, provided that dot is
  neither the first nor the last character of the name; \<^verbatim>\<open>with_suffix\<close> replaces the
  suffix, or appends the new one when there is none, and raises \<^verbatim>\<open>ValueError\<close> on an
  empty name or a malformed suffix.
\<close>

definition name :: "path \<Rightarrow> string" where
  "name p = (if p = [] then [] else last p)"

definition suffix_of :: "string \<Rightarrow> string" where
  "suffix_of nm =
     (let ext = CHR ''.'' # rev (takeWhile (\<lambda>c. c \<noteq> CHR ''.'') (rev nm))
      in if CHR ''.'' \<in> set nm \<and> length ext < length nm \<and> 1 < length ext then ext else [])"

definition path_suffix :: "path \<Rightarrow> string" where
  "path_suffix p = suffix_of (name p)"

definition with_suffix :: "path \<Rightarrow> string \<Rightarrow> error + path" where
  "with_suffix p sfx =
     (if CHR ''/'' \<in> set sfx then Inl ValueError
      else if (sfx \<noteq> [] \<and> hd sfx \<noteq> CHR ''.'') \<or> sfx = ''.'' then Inl ValueError
      else if name p = [] then Inl ValueError
      else Inr (butlast p @ [take (length (name p) - length (path_suffix p)) (name p) @ sfx]))"

section \<open>The path expander\<close>

text \<open>
  \<^verbatim>\<open>expand_paths\<close> (lines 77 to 96). The generator's items are the list, in the order
  they are yielded. \<open>yield_py\<close> is the loop of lines 92 to 96 over the triples of the
  iterator. With recursion off the iterator is the one-element tuple holding the first
  triple of the walk, which exists because the source is a directory.
\<close>

definition yield_py :: "(path \<times> string list \<times> string list) list \<Rightarrow> path list" where
  "yield_py iterator =
     concat (map (\<lambda>(dir, _, file_names).
               filter (\<lambda>path. path_suffix path = ''.py'')
                 (map (\<lambda>file_name. dir @ [file_name]) file_names)) iterator)"

definition expand_paths :: "node \<Rightarrow> path \<Rightarrow> bool \<Rightarrow> path list" where
  "expand_paths fs source recursive =
     (if \<not> is_dir fs source then [source]
      else
        let iterator = (if recursive then os_walk fs source else take 1 (os_walk fs source))
        in yield_py iterator)"

section \<open>The definition loader\<close>

text \<open>
  \<^verbatim>\<open>load_workflows_from_module\<close> (lines 99 to 121). Lines 108 to 114 hand the file to
  Python's import machinery, which is not part of this program: it is the parameter
  \<open>exec_module\<close>, giving either the exception that escapes or the bindings of the
  executed module's \<^verbatim>\<open>__dict__\<close> in insertion order. Lines 116 to 119 keep the values
  that are instances of \<^verbatim>\<open>Workflow\<close>.

  The parameter is a function of the file system and the path alone: what executing a
  module does besides binding names is outside the model. That covers the byte-code cache
  \<^verbatim>\<open>__pycache__/<stem>.cpython-*.pyc\<close> which the import system writes beside the module,
  and whatever the module's own code writes or prints. The file system and the output of
  the model are therefore those that the router of lines 53 to 74 reads and writes.
\<close>

datatype 'w pyobj = WorkflowObj 'w | OtherObj

type_synonym 'w importer = "node \<Rightarrow> path \<Rightarrow> error + (string \<times> 'w pyobj) list"

definition load_workflows_from_module :: "'w importer \<Rightarrow> node \<Rightarrow> path \<Rightarrow> error + 'w list" where
  "load_workflows_from_module exec_module fs path =
     (case exec_module fs path of
        Inl e \<Rightarrow> Inl e
      | Inr module_dict \<Rightarrow>
          Inr (concat (map (\<lambda>(k, item). case item of WorkflowObj w \<Rightarrow> [w] | OtherObj \<Rightarrow> [])
                 module_dict)))"

section \<open>The output router\<close>

text \<open>\<^verbatim>\<open>str.join\<close>, and the separator of lines 50 and 73.\<close>

fun str_join :: "string \<Rightarrow> string list \<Rightarrow> string" where
  "str_join sep [] = []"
| "str_join sep [x] = x"
| "str_join sep (x # y # ys) = x @ sep @ str_join sep (y # ys)"

definition doc_sep :: string where
  "doc_sep = [CHR 0x0A, CHR ''-'', CHR ''-'', CHR ''-'', CHR 0x0A]"

text \<open>
  Lines 41 to 51: the loop over the sorted paths, with the list \<^verbatim>\<open>path_to_output\<close> as
  accumulator. The serialiser \<^verbatim>\<open>Workflow.to_yaml\<close> is the parameter \<open>to_yaml\<close>. The
  first path whose loading raises ends the run with that exception.
\<close>

fun collect ::
  "'w importer \<Rightarrow> ('w \<Rightarrow> string) \<Rightarrow> node \<Rightarrow> path list \<Rightarrow> (string \<times> string) list
    \<Rightarrow> error + (string \<times> string) list" where
  "collect exec_module to_yaml fs [] path_to_output = Inr path_to_output"
| "collect exec_module to_yaml fs (path # paths) path_to_output =
     (case load_workflows_from_module exec_module fs path of
        Inl e \<Rightarrow> Inl e
      | Inr workflows \<Rightarrow>
          (let yaml_outputs = map to_yaml workflows
           in if yaml_outputs = [] then collect exec_module to_yaml fs paths path_to_output
              else collect exec_module to_yaml fs paths
                     (path_to_output @ [(name path, str_join doc_sep yaml_outputs)])))"

text \<open>
  \<^verbatim>\<open>to / path\<close> for a string \<^verbatim>\<open>path\<close> that is one file name (an empty string leaves
  \<^verbatim>\<open>to\<close> as it is), and the loop of lines 63 to 65. A write that raises ends the loop;
  the files written before it stay.
\<close>

definition joinpath :: "path \<Rightarrow> string \<Rightarrow> path" where
  "joinpath dest nm = (if nm = [] then dest else dest @ [nm])"

fun write_outputs :: "path \<Rightarrow> (string \<times> string) list \<Rightarrow> node \<Rightarrow> error option \<times> node" where
  "write_outputs dest [] fs = (None, fs)"
| "write_outputs dest ((path, content) # rest) fs =
     (case with_suffix (joinpath dest path) ''.yaml'' of
        Inl e \<Rightarrow> (Some e, fs)
      | Inr full_path \<Rightarrow>
          (case write_text fs full_path content of
             Inl e \<Rightarrow> (Some e, fs)
           | Inr fs' \<Rightarrow> write_outputs dest rest fs'))"

text \<open>
  The world a run acts on: the file system and what has been written to the standard
  output. A run gives the exception it ended with, if any, and the world it left.
\<close>

record world =
  files :: node
  stdout :: string

text \<open>
  \<^verbatim>\<open>generate_yaml\<close> (lines 16 to 74). A \<^verbatim>\<open>Path\<close> is always true, so \<^verbatim>\<open>if to\<close> asks
  whether a destination was given. Assertions are taken to be enabled. The argument
  \<^verbatim>\<open>from_\<close> is written \<open>source\<close>.
\<close>

definition generate_yaml ::
  "'w importer \<Rightarrow> ('w \<Rightarrow> string) \<Rightarrow> path \<Rightarrow> path option \<Rightarrow> bool \<Rightarrow> world
    \<Rightarrow> error option \<times> world" where
  "generate_yaml exec_module to_yaml source to recursive w =
     (let paths = sort (expand_paths (files w) source recursive)
      in case collect exec_module to_yaml (files w) paths [] of
           Inl e \<Rightarrow> (Some e, w)
         | Inr path_to_output \<Rightarrow>
             (case to of
                Some dest \<Rightarrow>
                  if is_dir (files w) source then
                    if path_exists (files w) dest \<and> \<not> is_dir (files w) dest
                    then (Some BadParameter, w)
                    else (case makedirs (files w) dest of
                            Inl e \<Rightarrow> (Some e, w)
                          | Inr fs1 \<Rightarrow>
                              (case write_outputs dest path_to_output fs1 of
                                 (r, fs2) \<Rightarrow> (r, w\<lparr>files := fs2\<rparr>)))
                  else if length path_to_output \<noteq> 1 then (Some AssertionError, w)
                  else (case write_text (files w) dest (snd (path_to_output ! 0)) of
                          Inl e \<Rightarrow> (Some e, w)
                        | Inr fs' \<Rightarrow> (None, w\<lparr>files := fs'\<rparr>))
              | None \<Rightarrow>
                  (None, w\<lparr>stdout := stdout w @ str_join doc_sep (map snd path_to_output)\<rparr>)))"

section \<open>A small importer for concrete runs\<close>

text \<open>
  For the concrete runs below, a module's text is read one character at a time: a capital
  letter binds a workflow that serialises to that letter, an exclamation mark makes the
  execution raise, and any other character binds something that is not a workflow.
\<close>

definition toy_exec_module :: "string importer" where
  "toy_exec_module fs path =
     (case stat fs path of
        None \<Rightarrow> Inl FileNotFoundError
      | Some IsDir \<Rightarrow> Inl IsADirectoryError
      | Some (IsFile text) \<Rightarrow>
          if CHR ''!'' \<in> set text then Inl (ImportFailure text)
          else Inr (map (\<lambda>c. ([c], if c \<in> set ''ABCDEFGHIJKLMNOPQRSTUVWXYZ''
                                    then WorkflowObj [c] else OtherObj)) text))"

definition toy_to_yaml :: "string \<Rightarrow> string" where
  "toy_to_yaml w = w"

section \<open>Notions used to state the properties\<close>

text \<open>
  What one candidate file contributes: the serialised workflows of the file, in the order
  the loader returns them (none when loading raises), and whether loading returns at all.
  \<open>entries_of\<close> is the list the spec calls the output list: one pair of base name and
  joined text for each file that has at least one workflow, in the order of the paths.
\<close>

definition yaml_docs :: "'w importer \<Rightarrow> ('w \<Rightarrow> string) \<Rightarrow> node \<Rightarrow> path \<Rightarrow> string list" where
  "yaml_docs exec_module to_yaml fs path =
     (case load_workflows_from_module exec_module fs path of
        Inl e \<Rightarrow> []
      | Inr workflows \<Rightarrow> map to_yaml workflows)"

definition loads :: "'w importer \<Rightarrow> node \<Rightarrow> path \<Rightarrow> bool" where
  "loads exec_module fs path = (\<not> isl (load_workflows_from_module exec_module fs path))"

definition entries_of ::
  "'w importer \<Rightarrow> ('w \<Rightarrow> string) \<Rightarrow> node \<Rightarrow> path list \<Rightarrow> (string \<times> string) list" where
  "entries_of exec_module to_yaml fs paths =
     map (\<lambda>p. (name p, str_join doc_sep (yaml_docs exec_module to_yaml fs p)))
       (filter (\<lambda>p. yaml_docs exec_module to_yaml fs p \<noteq> []) paths)"

text \<open>The destination of one entry, as line 64 computes it.\<close>

definition output_path :: "path \<Rightarrow> string \<Rightarrow> error + path" where
  "output_path dest nm = with_suffix (joinpath dest nm) ''.yaml''"

text \<open>The candidate files in the order in which line 38 processes them.\<close>

definition candidates :: "node \<Rightarrow> path \<Rightarrow> bool \<Rightarrow> path list" where
  "candidates fs source recursive = sort (expand_paths fs source recursive)"

text \<open>
  The text that the loop of lines 63 to 65 leaves at a path: that of the last entry whose
  destination is the path, if there is one.
\<close>

definition written :: "path \<Rightarrow> (string \<times> string) list \<Rightarrow> path \<Rightarrow> string option" where
  "written dest entries q =
     map_of (rev (map (\<lambda>(nm, content). (output_path dest nm, content)) entries)) (Inr q)"

text \<open>
  Two conditions on the file system a run starts from. \<open>dest_free\<close>: no prefix of the
  destination path, the destination included, is a regular file. \<open>outputs_free\<close>: the
  destination of no contributing candidate is an existing directory.
\<close>

definition dest_free :: "node \<Rightarrow> path \<Rightarrow> bool" where
  "dest_free fs dest = list_all (\<lambda>q. \<not> is_file fs q) (prefixes dest)"

definition outputs_free ::
  "'w importer \<Rightarrow> ('w \<Rightarrow> string) \<Rightarrow> node \<Rightarrow> path \<Rightarrow> path list \<Rightarrow> bool" where
  "outputs_free exec_module to_yaml fs dest paths =
     list_all (\<lambda>p. yaml_docs exec_module to_yaml fs p = [] \<or>
                 (case output_path dest (name p) of Inl e \<Rightarrow> True | Inr q \<Rightarrow> \<not> is_dir fs q))
       paths"

section \<open>Concrete file systems\<close>

definition demo_tree :: node where
  "demo_tree =
     Dir [(''wf'', Dir [(''b.txt'', File ''B''),
                       (''sub'', Dir [(''c.py'', File ''C''),
                                     (''deep'', Dir [(''d.py'', File ''D'')])]),
                       (''a.py'', File ''A'')])]"


text \<open>One module with two workflows.\<close>

definition solo_world :: world where
  "solo_world = \<lparr>files = Dir [(''solo.py'', File ''XY'')], stdout = []\<rparr>"

text \<open>A directory with one module that has a workflow and one that has none.\<close>

definition ab_world :: world where
  "ab_world =
     \<lparr>files = Dir [(''wf'', Dir [(''b.py'', File ''x''), (''a.py'', File ''A'')])],
      stdout = []\<rparr>"

text \<open>One module without a workflow.\<close>

definition empty_world :: world where
  "empty_world = \<lparr>files = Dir [(''empty.py'', File ''x'')], stdout = []\<rparr>"

text \<open>A directory of modules beside a regular file; in the second the module raises.\<close>

definition clash_world :: world where
  "clash_world =
     \<lparr>files = Dir [(''wf'', Dir [(''a.py'', File ''A'')]), (''out.txt'', File ''old'')],
      stdout = []\<rparr>"

definition broken_world :: world where
  "broken_world =
     \<lparr>files = Dir [(''wf'', Dir [(''bad.py'', File ''!'')]), (''out.txt'', File ''old'')],
      stdout = []\<rparr>"

text \<open>The same with two modules that raise, the later in sorted order listed first.\<close>

definition two_bad_world :: world where
  "two_bad_world =
     \<lparr>files = Dir [(''wf'', Dir [(''b.py'', File ''!b''), (''a.py'', File ''!a'')]),
                   (''out.txt'', File ''old'')],
      stdout = []\<rparr>"

text \<open>Two modules with one workflow each; one module beside an existing directory.\<close>

definition ac_world :: world where
  "ac_world =
     \<lparr>files = Dir [(''wf'', Dir [(''c.py'', File ''C''), (''a.py'', File ''A'')])],
      stdout = []\<rparr>"

definition file_to_dir_world :: world where
  "file_to_dir_world =
     \<lparr>files = Dir [(''solo.py'', File ''S''), (''out'', Dir [])], stdout = []\<rparr>"

text \<open>Two modules of the same name in different subdirectories.\<close>

definition twin_world :: world where
  "twin_world =
     \<lparr>files = Dir [(''wf'', Dir [(''b'', Dir [(''x.py'', File ''B'')]),
                                 (''a'', Dir [(''x.py'', File ''A'')])])],
      stdout = []\<rparr>"

text \<open>A directory whose only module has no workflow, beside a regular file.\<close>

definition idle_world :: world where
  "idle_world =
     \<lparr>files = Dir [(''wf'', Dir [(''b.py'', File ''x'')]), (''f'', File ''t'')],
      stdout = []\<rparr>"

section \<open>The file system operations: what they change and when they succeed\<close>

lemma stat_write_node:
  "write_node p c n = Inr n' \<Longrightarrow> stat n' q = (if q = p then Some (IsFile c) else stat n q)"
proof (induction p c n arbitrary: n' q rule: write_node.induct)
  case (1 c old)
  then show ?case by (cases q) auto
next
  case (2 c es)
  then show ?case by simp
next
  case (3 x xs c old)
  then show ?case by simp
next
  case (4 x xs c es)
  show ?case
  proof (cases "map_of es x")
    case None
    with 4 have xs: "xs = []" and n': "n' = Dir (AList.update x (File c) es)"
      by (auto split: if_splits)
    show ?thesis
    proof (cases q)
      case Nil
      then show ?thesis by (simp add: n')
    next
      case (Cons y ys)
      then show ?thesis using None
        by (cases ys) (auto simp: n' xs update_conv')
    qed
  next
    case (Some ch)
    with 4(2) obtain ch' where ch': "write_node xs c ch = Inr ch'"
      and n': "n' = Dir (AList.update x ch' es)"
      by (auto split: sum.splits)
    have IH: "\<And>q. stat ch' q = (if q = xs then Some (IsFile c) else stat ch q)"
      using 4(1)[OF Some ch'] by simp
    show ?thesis
    proof (cases q)
      case Nil
      then show ?thesis by (simp add: n')
    next
      case (Cons y ys)
      then show ?thesis using Some
        by (auto simp: n' update_conv' IH)
    qed
  qed
qed

lemma stat_makedirs_node:
  "makedirs_node p n = Inr n' \<Longrightarrow> stat n' q = (if prefix q p then Some IsDir else stat n q)"
proof (induction p n arbitrary: n' q rule: makedirs_node.induct)
  case (1 es)
  then show ?case by (cases q) auto
next
  case (2 c)
  then show ?case by simp
next
  case (3 x xs c)
  then show ?case by simp
next
  case (4 x xs es)
  define ch where "ch = (case map_of es x of None \<Rightarrow> Dir [] | Some ch \<Rightarrow> ch)"
  from 4(2) obtain ch' where ch': "makedirs_node xs ch = Inr ch'"
    and n': "n' = Dir (AList.update x ch' es)"
    by (auto simp: ch_def split: sum.splits)
  have IH: "\<And>q. stat ch' q = (if prefix q xs then Some IsDir else stat ch q)"
    using 4(1)[OF ch'[unfolded ch_def]] by (simp add: ch_def)
  show ?case
  proof (cases q)
    case Nil
    then show ?thesis by (simp add: n')
  next
    case (Cons y ys)
    have empty: "stat (Dir []) ys = (if ys = [] then Some IsDir else None)"
      by (cases ys) auto
    show ?thesis
      using Cons by (auto simp: n' update_conv' IH ch_def empty split: option.splits)
  qed
qed

lemma makedirs_node_succeeds:
  "(\<And>q. prefix q p \<Longrightarrow> \<not> is_file n q) \<Longrightarrow> \<exists>n'. makedirs_node p n = Inr n'"
proof (induction p n rule: makedirs_node.induct)
  case (1 es)
  then show ?case by simp
next
  case (2 c)
  from 2[of "[]"] show ?case by (simp add: is_file_def)
next
  case (3 x xs c)
  from 3[of "[]"] show ?case by (simp add: is_file_def)
next
  case (4 x xs es)
  define ch where "ch = (case map_of es x of None \<Rightarrow> Dir [] | Some ch \<Rightarrow> ch)"
  have "\<not> is_file ch q" if "prefix q xs" for q
  proof (cases "map_of es x")
    case None
    then show ?thesis by (cases q) (auto simp: ch_def is_file_def)
  next
    case (Some a)
    with 4(2)[of "x # q"] that show ?thesis by (simp add: ch_def is_file_def)
  qed
  then obtain ch' where "makedirs_node xs ch = Inr ch'"
    using 4(1) unfolding ch_def by blast
  then show ?case by (simp add: ch_def)
qed

lemma makedirs_node_fails:
  "prefix q p \<Longrightarrow> is_file n q \<Longrightarrow> \<exists>e. makedirs_node p n = Inl e"
proof (induction p n arbitrary: q rule: makedirs_node.induct)
  case (1 es)
  then show ?case by (simp add: is_file_def)
next
  case (2 c)
  then show ?case by simp
next
  case (3 x xs c)
  then show ?case by simp
next
  case (4 x xs es)
  from 4(2,3) obtain ys where q: "q = x # ys" and ys: "prefix ys xs"
    by (cases q) (auto simp: is_file_def)
  from 4(3) q obtain ch where ch: "map_of es x = Some ch" and f: "is_file ch ys"
    by (auto simp: is_file_def split: option.splits)
  from 4(1)[OF ys] f ch obtain e where "makedirs_node xs ch = Inl e" by auto
  then show ?case by (simp add: ch)
qed

lemma write_node_succeeds:
  "is_dir n p \<Longrightarrow> \<not> is_dir n (p @ [x]) \<Longrightarrow> \<exists>n'. write_node (p @ [x]) c n = Inr n'"
proof (induction p arbitrary: n)
  case Nil
  then show ?case
    by (cases n) (auto simp: is_dir_def split: option.splits node.splits, (case_tac x2a; simp)+)
next
  case (Cons y ys)
  then obtain es where n: "n = Dir es" by (cases n) (auto simp: is_dir_def)
  from Cons.prems n obtain ch where ch: "map_of es y = Some ch" and d: "is_dir ch ys"
    and nd: "\<not> is_dir ch (ys @ [x])"
    by (auto simp: is_dir_def split: option.splits)
  from Cons.IH[OF d nd] obtain ch' where "write_node (ys @ [x]) c ch = Inr ch'" by blast
  then show ?case by (simp add: n ch)
qed

section \<open>Suffixes and output paths\<close>

lemma last_dot_split:
  assumes "CHR ''.'' \<in> set nm"
  shows "\<exists>stem. nm = stem @ CHR ''.'' # rev (takeWhile (\<lambda>c. c \<noteq> CHR ''.'') (rev nm))"
proof -
  let ?P = "\<lambda>c. c \<noteq> CHR ''.''"
  from assms have "dropWhile ?P (rev nm) \<noteq> []" by (simp add: dropWhile_eq_Nil_conv)
  moreover have "\<not> ?P (hd (dropWhile ?P (rev nm)))"
    using calculation by (rule hd_dropWhile)
  ultimately obtain r where r: "dropWhile ?P (rev nm) = CHR ''.'' # r"
    by (cases "dropWhile ?P (rev nm)") auto
  have "rev nm = takeWhile ?P (rev nm) @ dropWhile ?P (rev nm)" by simp
  then have "rev (rev nm) = rev (takeWhile ?P (rev nm) @ CHR ''.'' # r)" using r by simp
  then have "nm = rev r @ CHR ''.'' # rev (takeWhile ?P (rev nm))" by simp
  then show ?thesis by blast
qed

lemma suffix_of_split:
  assumes "suffix_of nm \<noteq> []"
  shows "nm = take (length nm - length (suffix_of nm)) nm @ suffix_of nm"
proof -
  let ?ext = "CHR ''.'' # rev (takeWhile (\<lambda>c. c \<noteq> CHR ''.'') (rev nm))"
  from assms have dot: "CHR ''.'' \<in> set nm" and ext: "suffix_of nm = ?ext"
    by (auto simp: suffix_of_def Let_def split: if_splits)
  from last_dot_split[OF dot] obtain stem where "nm = stem @ ?ext" by blast
  then have nm: "nm = stem @ suffix_of nm" using ext by simp
  have "take (length nm - length (suffix_of nm)) nm = stem"
    by (subst (1 2) nm) simp
  then show ?thesis using nm by simp
qed

lemma suffix_of_py_iff:
  "suffix_of nm = ''.py'' \<longleftrightarrow> (\<exists>stem. stem \<noteq> [] \<and> nm = stem @ ''.py'')"
proof
  assume a: "suffix_of nm = ''.py''"
  then have ne: "suffix_of nm \<noteq> []" by simp
  have lt: "length (suffix_of nm) < length nm"
    using ne by (auto simp: suffix_of_def Let_def split: if_splits)
  define stem where "stem = take (length nm - length (suffix_of nm)) nm"
  have "nm = stem @ suffix_of nm" unfolding stem_def by (rule suffix_of_split[OF ne])
  then have nm: "nm = stem @ ''.py''" using a by simp
  have "length nm = length stem + 3" by (subst nm) simp
  then have "stem \<noteq> []" using lt a by auto
  with nm show "\<exists>stem. stem \<noteq> [] \<and> nm = stem @ ''.py''" by blast
next
  assume "\<exists>stem. stem \<noteq> [] \<and> nm = stem @ ''.py''"
  then obtain stem where "stem \<noteq> []" and "nm = stem @ ''.py''" by blast
  then show "suffix_of nm = ''.py''"
    by (simp add: suffix_of_def Let_def)
qed

lemma with_suffix_yaml:
  "nm \<noteq> [] \<Longrightarrow> output_path dest nm =
     Inr (dest @ [take (length nm - length (suffix_of nm)) nm @ ''.yaml''])"
  by (simp add: output_path_def with_suffix_def joinpath_def name_def path_suffix_def)

lemma output_path_py:
  "stem \<noteq> [] \<Longrightarrow> output_path dest (stem @ ''.py'') = Inr (dest @ [stem @ ''.yaml''])"
proof -
  assume s: "stem \<noteq> []"
  then have "suffix_of (stem @ ''.py'') = ''.py''" using suffix_of_py_iff by blast
  then show ?thesis using s by (simp add: with_suffix_yaml)
qed

lemma output_path_inj:
  assumes "suffix_of a = ''.py''" "suffix_of b = ''.py''" "output_path dest a = output_path dest b"
  shows "a = b"
proof -
  from assms(1) obtain sa where sa: "sa \<noteq> []" "a = sa @ ''.py''" using suffix_of_py_iff by blast
  from assms(2) obtain sb where sb: "sb \<noteq> []" "b = sb @ ''.py''" using suffix_of_py_iff by blast
  from assms(3) show ?thesis using sa sb by (simp add: output_path_py)
qed

section \<open>The walk and the path expander\<close>

lemma stat_append:
  "stat fs (p @ q) = (case lookup fs p of None \<Rightarrow> None | Some n \<Rightarrow> stat n q)"
proof (induction p arbitrary: fs)
  case Nil
  then show ?case by simp
next
  case (Cons x xs)
  then show ?case by (cases fs) (auto split: option.splits)
qed

lemma is_dir_lookup: "is_dir fs p \<longleftrightarrow> (\<exists>es. lookup fs p = Some (Dir es))"
proof -
  have "stat fs p = (case lookup fs p of None \<Rightarrow> None | Some n \<Rightarrow> stat n [])"
    using stat_append[of fs p "[]"] by simp
  then show ?thesis
    by (auto simp: is_dir_def split: option.splits node.splits elim: stat.elims)
qed

lemma wf_entries_iff: "wf_entries es \<longleftrightarrow> (\<forall>(n, ch) \<in> set es. wf_node ch)"
  by (induction es) auto

lemma wf_lookup: "wf_node fs \<Longrightarrow> lookup fs p = Some n \<Longrightarrow> wf_node n"
proof (induction p arbitrary: fs)
  case Nil
  then show ?case by simp
next
  case (Cons x xs)
  then obtain es where fs: "fs = Dir es" by (cases fs) auto
  from Cons.prems fs obtain ch where ch: "map_of es x = Some ch" and l: "lookup ch xs = Some n"
    by (auto split: option.splits)
  from ch have "(x, ch) \<in> set es" by (rule map_of_SomeD)
  with Cons.prems(1) fs have "wf_node ch" by (auto simp: wf_entries_iff)
  with Cons.IH l show ?case by blast
qed

lemma is_file_child:
  "is_file (Dir es) (x # q) \<longleftrightarrow> (\<exists>ch. map_of es x = Some ch \<and> is_file ch q)"
  by (auto simp: is_file_def split: option.splits)

lemma is_file_Nil: "is_file n [] \<longleftrightarrow> (\<exists>c. n = File c)"
  by (cases n) (auto simp: is_file_def)

lemma file_entries:
  assumes d: "distinct (map fst es)"
  shows "set (map fst (filter (\<lambda>(n, ch). case ch of Dir _ \<Rightarrow> False | File _ \<Rightarrow> True) es))
     = {x. is_file (Dir es) [x]}"
proof -
  have "is_file (Dir es) [x] \<longleftrightarrow> (\<exists>c. (x, File c) \<in> set es)" for x
    by (auto simp: is_file_child is_file_Nil map_of_eq_Some_iff[OF d])
  then show ?thesis
    by (force split: node.splits)
qed

lemma path_suffix_snoc [simp]: "path_suffix (d @ [f]) = suffix_of f"
  by (simp add: path_suffix_def name_def)

lemma yield_py_Cons:
  "yield_py ((d, ds, fns) # rest) =
     filter (\<lambda>p. path_suffix p = ''.py'') (map (\<lambda>f. d @ [f]) fns) @ yield_py rest"
  by (simp add: yield_py_def)

lemma yield_py_append: "yield_py (a @ b) = yield_py a @ yield_py b"
  by (simp add: yield_py_def)

lemma yield_py_Nil: "yield_py [] = []"
  by (simp add: yield_py_def)

lemma walk_yields:
  "wf_node n \<Longrightarrow>
     set (yield_py (walk d n)) =
       {d @ q | q. q \<noteq> [] \<and> is_file n q \<and> suffix_of (last q) = ''.py''}"
  "distinct (map fst es) \<Longrightarrow> wf_entries es \<Longrightarrow>
     set (yield_py (walk_children d es)) =
       {d @ x # q | x q. q \<noteq> [] \<and> (\<exists>ch. map_of es x = Some ch \<and> is_file ch q)
          \<and> suffix_of (last q) = ''.py''}"
proof (induction d n and d es rule: walk_walk_children.induct)
  case (1 dirpath c)
  have "\<not> is_file (File c) q" if "q \<noteq> []" for q
    using that by (cases q) (auto simp: is_file_def)
  then show ?case by (auto simp: yield_py_Nil)
next
  case (2 dirpath es)
  then have d: "distinct (map fst es)" and w: "wf_entries es" by auto
  define fl where
    "fl = map fst (filter (\<lambda>(n, ch). case ch of Dir _ \<Rightarrow> False | File _ \<Rightarrow> True) es)"
  have fl: "set fl = {x. is_file (Dir es) [x]}"
    unfolding fl_def by (rule file_entries[OF d])
  have "set (filter (\<lambda>p. path_suffix p = ''.py'') (map (\<lambda>f. dirpath @ [f]) fl))
        = {dirpath @ [x] | x. x \<in> set fl \<and> suffix_of x = ''.py''}"
    by auto
  then have here: "set (filter (\<lambda>p. path_suffix p = ''.py'') (map (\<lambda>f. dirpath @ [f]) fl))
        = {dirpath @ [x] | x. is_file (Dir es) [x] \<and> suffix_of x = ''.py''}"
    unfolding fl by simp
  have split: "{dirpath @ q | q. q \<noteq> [] \<and> is_file (Dir es) q \<and> suffix_of (last q) = ''.py''}
       = {dirpath @ [x] | x. is_file (Dir es) [x] \<and> suffix_of x = ''.py''}
         \<union> {dirpath @ x # q | x q. q \<noteq> [] \<and> (\<exists>ch. map_of es x = Some ch \<and> is_file ch q)
               \<and> suffix_of (last q) = ''.py''}" (is "?L = ?A \<union> ?B")
  proof (intro set_eqI iffI)
    fix p assume "p \<in> ?L"
    then obtain q where q: "p = dirpath @ q" "q \<noteq> []" "is_file (Dir es) q"
      "suffix_of (last q) = ''.py''" by blast
    then obtain x r where xr: "q = x # r" by (cases q) auto
    show "p \<in> ?A \<union> ?B"
    proof (cases "r = []")
      case True
      with q xr show ?thesis by auto
    next
      case False
      with q xr show ?thesis by (auto simp: is_file_child)
    qed
  next
    fix p assume "p \<in> ?A \<union> ?B"
    then show "p \<in> ?L"
    proof
      assume "p \<in> ?A"
      then obtain x where "p = dirpath @ [x]" "is_file (Dir es) [x]" "suffix_of x = ''.py''"
        by blast
      then show ?thesis by (intro CollectI exI[of _ "[x]"]) simp
    next
      assume "p \<in> ?B"
      then obtain x q where "p = dirpath @ x # q" "q \<noteq> []"
        "\<exists>ch. map_of es x = Some ch \<and> is_file ch q" "suffix_of (last q) = ''.py''"
        by blast
      then show ?thesis by (intro CollectI exI[of _ "x # q"]) (simp add: is_file_child)
    qed
  qed
  show ?case
    unfolding walk.simps yield_py_Cons set_append fl_def[symmetric] here split
    using 2(1)[OF d w] by simp
next
  case (3 dirpath)
  then show ?case by (simp add: yield_py_Nil)
next
  case (4 dirpath n ch es)
  then have d: "distinct (map fst es)" and w: "wf_entries es" and wch: "wf_node ch"
    and nx: "n \<notin> fst ` set es" by auto
  have m: "map_of es n = None" using nx by (simp add: map_of_eq_None_iff)
  have A: "set (yield_py (walk (dirpath @ [n]) ch)) =
      {dirpath @ n # q | q. q \<noteq> [] \<and> is_file ch q \<and> suffix_of (last q) = ''.py''}"
    using 4(1)[OF wch] by simp
  have B: "set (yield_py (walk_children dirpath es)) =
       {dirpath @ x # q | x q. q \<noteq> [] \<and> (\<exists>ch. map_of es x = Some ch \<and> is_file ch q)
          \<and> suffix_of (last q) = ''.py''}"
    using 4(2)[OF d w] .
  have C: "(\<exists>ch'. map_of ((n, ch) # es) x = Some ch' \<and> is_file ch' q) \<longleftrightarrow>
      (x = n \<and> is_file ch q) \<or> (\<exists>ch'. map_of es x = Some ch' \<and> is_file ch' q)" for x q
    using m by auto
  show ?case
    unfolding walk_children.simps yield_py_append set_append A B C
    by blast
qed

lemma walk_distinct:
  "wf_node n \<Longrightarrow> distinct (yield_py (walk d n))"
  "distinct (map fst es) \<Longrightarrow> wf_entries es \<Longrightarrow> distinct (yield_py (walk_children d es))"
proof (induction d n and d es rule: walk_walk_children.induct)
  case (1 dirpath c)
  then show ?case by (simp add: yield_py_Nil)
next
  case (2 dirpath es)
  then have d: "distinct (map fst es)" and w: "wf_entries es" by auto
  define fl where
    "fl = map fst (filter (\<lambda>(n, ch). case ch of Dir _ \<Rightarrow> False | File _ \<Rightarrow> True) es)"
  have "distinct fl" unfolding fl_def using d by (rule distinct_map_filter)
  then have here: "distinct (filter (\<lambda>p. path_suffix p = ''.py'') (map (\<lambda>f. dirpath @ [f]) fl))"
    by (simp add: distinct_map inj_on_def)
  have below: "distinct (yield_py (walk_children dirpath es))" using 2(1)[OF d w] .
  have disj: "set (filter (\<lambda>p. path_suffix p = ''.py'') (map (\<lambda>f. dirpath @ [f]) fl))
      \<inter> set (yield_py (walk_children dirpath es)) = {}"
    unfolding walk_yields(2)[OF d w] by auto
  show ?case
    unfolding walk.simps yield_py_Cons fl_def[symmetric] distinct_append
    using here below disj by simp
next
  case (3 dirpath)
  then show ?case by (simp add: yield_py_Nil)
next
  case (4 dirpath n ch es)
  then have d: "distinct (map fst es)" and w: "wf_entries es" and wch: "wf_node ch"
    and nx: "n \<notin> fst ` set es" by auto
  have m: "map_of es n = None" using nx by (simp add: map_of_eq_None_iff)
  have disj: "set (yield_py (walk (dirpath @ [n]) ch)) \<inter> set (yield_py (walk_children dirpath es)) = {}"
    unfolding walk_yields(1)[OF wch] walk_yields(2)[OF d w] using m by auto
  show ?case
    unfolding walk_children.simps yield_py_append distinct_append
    using 4(1)[OF wch] 4(2)[OF d w] disj by simp
qed

lemma is_file_append:
  "lookup fs p = Some n \<Longrightarrow> is_file fs (p @ q) = is_file n q"
  by (simp add: is_file_def stat_append)

text \<open>
  C6. For a directory source with recursion off, the path expander yields exactly the
  regular files that are immediate children of the directory and whose extension is
  \<^verbatim>\<open>.py\<close>, each of them once; so it yields nothing from a subdirectory.
\<close>

theorem expand_paths_flat:
  assumes "wf_node fs" and "is_dir fs source"
  shows "set (expand_paths fs source False) =
           {source @ [x] | x. is_file fs (source @ [x]) \<and> path_suffix (source @ [x]) = ''.py''}
         \<and> distinct (expand_paths fs source False)"
proof -
  from assms(2) obtain es where l: "lookup fs source = Some (Dir es)"
    using is_dir_lookup by blast
  from wf_lookup[OF assms(1) l] have d: "distinct (map fst es)" by simp
  define fl where
    "fl = map fst (filter (\<lambda>(n, ch). case ch of Dir _ \<Rightarrow> False | File _ \<Rightarrow> True) es)"
  have e: "expand_paths fs source False =
      filter (\<lambda>p. path_suffix p = ''.py'') (map (\<lambda>f. source @ [f]) fl)"
    using assms(2) by (simp add: expand_paths_def os_walk_def l yield_py_def fl_def)
  have fl: "set fl = {x. is_file (Dir es) [x]}"
    unfolding fl_def by (rule file_entries[OF d])
  have "distinct fl" unfolding fl_def using d by (rule distinct_map_filter)
  then have "distinct (expand_paths fs source False)"
    unfolding e by (simp add: distinct_map inj_on_def)
  moreover have "set (expand_paths fs source False) =
      {source @ [x] | x. is_file fs (source @ [x]) \<and> path_suffix (source @ [x]) = ''.py''}"
    unfolding e using fl by (auto simp: is_file_append[OF l])
  ultimately show ?thesis by simp
qed

text \<open>
  C7. For a directory source with recursion on, the path expander yields every regular
  file below the directory, at any depth, whose extension is \<^verbatim>\<open>.py\<close>, each of them
  once, and nothing else.
\<close>

theorem expand_paths_recursive:
  assumes "wf_node fs" and "is_dir fs source"
  shows "set (expand_paths fs source True) =
           {source @ q | q. q \<noteq> [] \<and> is_file fs (source @ q)
              \<and> path_suffix (source @ q) = ''.py''}
         \<and> distinct (expand_paths fs source True)"
proof -
  from assms(2) obtain es where l: "lookup fs source = Some (Dir es)"
    using is_dir_lookup by blast
  have w: "wf_node (Dir es)" by (rule wf_lookup[OF assms(1) l])
  have e: "expand_paths fs source True = yield_py (walk source (Dir es))"
    using assms(2) by (simp add: expand_paths_def os_walk_def l)
  have s: "path_suffix (source @ q) = suffix_of (last q)" if "q \<noteq> []" for q
    using that by (simp add: path_suffix_def name_def)
  have "set (expand_paths fs source True) =
      {source @ q | q. q \<noteq> [] \<and> is_file (Dir es) q \<and> suffix_of (last q) = ''.py''}"
    unfolding e by (rule walk_yields(1)[OF w])
  also have "\<dots> = {source @ q | q. q \<noteq> [] \<and> is_file fs (source @ q)
              \<and> path_suffix (source @ q) = ''.py''}"
    using s by (auto simp: is_file_append[OF l])
  finally show ?thesis
    unfolding e using walk_distinct(1)[OF w] by simp
qed

theorem expand_paths_flat_witness:
  "wf_node demo_tree \<and> is_dir demo_tree [''wf'']
   \<and> set (expand_paths demo_tree [''wf''] False) =
       {[''wf''] @ [x] | x. is_file demo_tree ([''wf''] @ [x])
          \<and> path_suffix ([''wf''] @ [x]) = ''.py''}
   \<and> distinct (expand_paths demo_tree [''wf''] False)
   \<and> expand_paths demo_tree [''wf''] False = [[''wf'', ''a.py'']]"
proof -
  have w: "wf_node demo_tree" by (simp add: demo_tree_def)
  have d: "is_dir demo_tree [''wf'']" by (simp add: demo_tree_def is_dir_def)
  have e: "expand_paths demo_tree [''wf''] False = [[''wf'', ''a.py'']]" by code_simp
  from expand_paths_flat[OF w d] w d e show ?thesis by simp
qed

theorem expand_paths_recursive_witness:
  "wf_node demo_tree \<and> is_dir demo_tree [''wf'']
   \<and> set (expand_paths demo_tree [''wf''] True) =
       {[''wf''] @ q | q. q \<noteq> [] \<and> is_file demo_tree ([''wf''] @ q)
          \<and> path_suffix ([''wf''] @ q) = ''.py''}
   \<and> distinct (expand_paths demo_tree [''wf''] True)
   \<and> expand_paths demo_tree [''wf''] True =
       [[''wf'', ''a.py''], [''wf'', ''sub'', ''c.py''], [''wf'', ''sub'', ''deep'', ''d.py'']]"
proof -
  have w: "wf_node demo_tree" by (simp add: demo_tree_def)
  have d: "is_dir demo_tree [''wf'']" by (simp add: demo_tree_def is_dir_def)
  have e: "expand_paths demo_tree [''wf''] True =
       [[''wf'', ''a.py''], [''wf'', ''sub'', ''c.py''], [''wf'', ''sub'', ''deep'', ''d.py'']]"
    by code_simp
  from expand_paths_recursive[OF w d] w d e show ?thesis by simp
qed

text \<open>
  C8. For a source path that is not a directory the path expander yields that one path
  and nothing else, whatever its extension and whatever the recursion flag.
\<close>

theorem expand_paths_single_file:
  "\<not> is_dir fs source \<Longrightarrow> expand_paths fs source recursive = [source]"
  by (simp add: expand_paths_def)

theorem expand_paths_single_file_witness:
  "\<not> is_dir (Dir [(''notes.txt'', File ''A'')]) [''notes.txt'']
   \<and> path_suffix [''notes.txt''] \<noteq> ''.py''
   \<and> expand_paths (Dir [(''notes.txt'', File ''A'')]) [''notes.txt''] True = [[''notes.txt'']]"
  using expand_paths_single_file [of "Dir [(''notes.txt'', File ''A'')]" "[''notes.txt'']" True]
  by (simp add: is_dir_def path_suffix_def name_def suffix_of_def)

section \<open>The collecting loop and the writing loop\<close>

lemma collect_loads:
  "list_all (loads em fs) paths \<Longrightarrow>
   collect em ty fs paths acc = Inr (acc @ entries_of em ty fs paths)"
proof (induction paths arbitrary: acc)
  case Nil
  then show ?case by (simp add: entries_of_def)
next
  case (Cons p ps)
  then obtain ws where ws: "load_workflows_from_module em fs p = Inr ws"
    by (cases "load_workflows_from_module em fs p") (auto simp: loads_def)
  have rest: "\<And>acc. collect em ty fs ps acc = Inr (acc @ entries_of em ty fs ps)"
    using Cons by simp
  show ?case
    by (simp add: ws rest entries_of_def yaml_docs_def Let_def)
qed

lemma collect_fails:
  "\<not> list_all (loads em fs) paths \<Longrightarrow> \<exists>e. collect em ty fs paths acc = Inl e"
proof (induction paths arbitrary: acc)
  case Nil
  then show ?case by simp
next
  case (Cons p ps)
  show ?case
  proof (cases "load_workflows_from_module em fs p")
    case (Inl e)
    then show ?thesis by simp
  next
    case (Inr ws)
    then have "loads em fs p" by (simp add: loads_def)
    then have "\<not> list_all (loads em fs) ps" using Cons.prems by simp
    then show ?thesis using Cons.IH Inr by (simp add: Let_def)
  qed
qed

lemma collect_Inr_iff:
  "collect em ty fs paths [] = Inr pto \<longleftrightarrow>
     list_all (loads em fs) paths \<and> pto = entries_of em ty fs paths"
proof (cases "list_all (loads em fs) paths")
  case True
  then show ?thesis by (auto simp: collect_loads)
next
  case False
  from collect_fails[OF this, of ty "[]"] False show ?thesis by auto
qed

lemma list_all_candidates:
  "list_all P (candidates fs source recursive) = list_all P (expand_paths fs source recursive)"
  by (simp add: candidates_def list_all_iff)

lemma expand_paths_py:
  assumes "is_dir fs source" "p \<in> set (expand_paths fs source recursive)"
  shows "suffix_of (name p) = ''.py''"
proof -
  have y: "q \<in> set (yield_py it) \<Longrightarrow> path_suffix q = ''.py''" for q it
    by (auto simp: yield_py_def)
  from assms show ?thesis
    by (auto simp: expand_paths_def Let_def path_suffix_def dest: y split: if_splits)
qed

lemma stat_write_text:
  "write_text fs p c = Inr fs' \<Longrightarrow> stat fs' q = (if q = p then Some (IsFile c) else stat fs q)"
  unfolding write_text_def by (rule stat_write_node)

lemma write_outputs_frame:
  "write_outputs dest pairs fs = (r, fs') \<Longrightarrow> stat fs' q \<noteq> stat fs q \<Longrightarrow>
     \<exists>(nm, c) \<in> set pairs. output_path dest nm = Inr q"
proof (induction pairs arbitrary: fs)
  case Nil
  then show ?case by simp
next
  case (Cons pr rest)
  obtain nm c where pr: "pr = (nm, c)" by (cases pr)
  show ?case
  proof (cases "with_suffix (joinpath dest nm) ''.yaml''")
    case (Inl e)
    with Cons.prems pr show ?thesis by simp
  next
    case (Inr full)
    show ?thesis
    proof (cases "write_text fs full c")
      case (Inl e)
      with Cons.prems pr Inr show ?thesis by simp
    next
      case fs1: (Inr fs1)
      from Cons.prems(1) pr Inr fs1 have w: "write_outputs dest rest fs1 = (r, fs')" by simp
      show ?thesis
      proof (cases "stat fs' q = stat fs1 q")
        case True
        with Cons.prems(2) stat_write_text[OF fs1, of q] have "q = full" by (auto split: if_splits)
        with Inr pr show ?thesis by (simp add: output_path_def)
      next
        case False
        from Cons.IH[OF w False] show ?thesis by auto
      qed
    qed
  qed
qed

lemma write_outputs_final:
  "write_outputs dest pairs fs = (None, fs') \<Longrightarrow>
     stat fs' q = (case written dest pairs q of Some c \<Rightarrow> Some (IsFile c) | None \<Rightarrow> stat fs q)"
proof (induction pairs arbitrary: fs)
  case Nil
  then show ?case by (simp add: written_def)
next
  case (Cons pr rest)
  obtain nm c where pr: "pr = (nm, c)" by (cases pr)
  from Cons.prems pr obtain full where full: "with_suffix (joinpath dest nm) ''.yaml'' = Inr full"
    by (cases "with_suffix (joinpath dest nm) ''.yaml''") auto
  from Cons.prems pr full obtain fs1 where fs1: "write_text fs full c = Inr fs1"
    by (cases "write_text fs full c") auto
  from Cons.prems pr full fs1 have w: "write_outputs dest rest fs1 = (None, fs')" by simp
  have wr: "written dest (pr # rest) q =
      (case written dest rest q of Some c' \<Rightarrow> Some c'
       | None \<Rightarrow> if q = full then Some c else None)"
    using full pr by (auto simp: written_def output_path_def map_add_def split: option.splits)
  show ?case
    unfolding Cons.IH[OF w] wr using stat_write_text[OF fs1, of q]
    by (auto split: option.splits)
qed

lemma write_text_succeeds:
  "is_dir fs p \<Longrightarrow> \<not> is_dir fs (p @ [x]) \<Longrightarrow> \<exists>fs'. write_text fs (p @ [x]) c = Inr fs'"
  unfolding write_text_def by (rule write_node_succeeds)

lemma write_outputs_succeeds:
  assumes "is_dir fs dest"
    and "\<And>nm c. (nm, c) \<in> set pairs \<Longrightarrow> nm \<noteq> []"
    and "\<And>nm c q. (nm, c) \<in> set pairs \<Longrightarrow> output_path dest nm = Inr q \<Longrightarrow> \<not> is_dir fs q"
  shows "\<exists>fs'. write_outputs dest pairs fs = (None, fs')"
  using assms
proof (induction pairs arbitrary: fs)
  case Nil
  then show ?case by simp
next
  case (Cons pr rest)
  obtain nm c where pr: "pr = (nm, c)" by (cases pr)
  have ne: "nm \<noteq> []" using Cons.prems(2)[of nm c] pr by simp
  define y where "y = take (length nm - length (suffix_of nm)) nm @ ''.yaml''"
  have op: "output_path dest nm = Inr (dest @ [y])"
    unfolding y_def by (rule with_suffix_yaml[OF ne])
  have nd: "\<not> is_dir fs (dest @ [y])" using Cons.prems(3)[of nm c, OF _ op] pr by simp
  from write_text_succeeds[OF Cons.prems(1) nd] obtain fs1
    where fs1: "write_text fs (dest @ [y]) c = Inr fs1" by blast
  have same: "is_dir fs1 q = is_dir fs q" for q
    using stat_write_text[OF fs1, of q] nd by (auto simp: is_dir_def)
  have "\<exists>fs'. write_outputs dest rest fs1 = (None, fs')"
  proof (rule Cons.IH)
    show "is_dir fs1 dest" using Cons.prems(1) by (simp add: same)
    show "\<And>nm c. (nm, c) \<in> set rest \<Longrightarrow> nm \<noteq> []" using Cons.prems(2) by auto
    show "\<And>nm c q. (nm, c) \<in> set rest \<Longrightarrow> output_path dest nm = Inr q \<Longrightarrow> \<not> is_dir fs1 q"
      using Cons.prems(3) by (auto simp: same)
  qed
  then show ?case using op fs1 pr by (simp add: output_path_def)
qed

section \<open>Runs with a directory source and a destination\<close>

lemma stat_makedirs:
  "makedirs fs dest = Inr fs1 \<Longrightarrow> stat fs1 q = (if prefix q dest then Some IsDir else stat fs q)"
  unfolding makedirs_def by (rule stat_makedirs_node)

lemma makedirs_succeeds: "dest_free fs dest \<Longrightarrow> \<exists>fs1. makedirs fs dest = Inr fs1"
  unfolding makedirs_def dest_free_def
  by (rule makedirs_node_succeeds) (simp add: list_all_iff)

lemma dest_free_not_file: "dest_free fs dest \<Longrightarrow> \<not> (path_exists fs dest \<and> \<not> is_dir fs dest)"
proof -
  assume "dest_free fs dest"
  then have "\<not> is_file fs dest" by (simp add: dest_free_def list_all_iff)
  then show ?thesis
    by (auto simp: is_file_def path_exists_def is_dir_def split: option.splits entry.splits)
qed

lemma is_dir_dest_free: "is_dir fs dest \<Longrightarrow> dest_free fs dest"
proof -
  assume d: "is_dir fs dest"
  have "\<not> is_file fs q" if "prefix q dest" for q
  proof
    assume f: "is_file fs q"
    from that obtain r where r: "dest = q @ r" by (auto simp: prefix_def)
    from f obtain c where "stat fs (q @ []) = Some (IsFile c)"
      by (auto simp: is_file_def split: option.splits entry.splits)
    then obtain n where n: "lookup fs q = Some n" "stat n [] = Some (IsFile c)"
      unfolding stat_append by (auto split: option.splits)
    then have "n = File c" by (cases n) auto
    then have "stat fs dest \<noteq> Some IsDir"
      unfolding r stat_append using n by (cases r) auto
    with d show False by (simp add: is_dir_def)
  qed
  then show ?thesis by (simp add: dest_free_def list_all_iff)
qed

lemma entries_of_set:
  "(nm, c) \<in> set (entries_of em ty fs paths) \<longleftrightarrow>
     (\<exists>p \<in> set paths. yaml_docs em ty fs p \<noteq> [] \<and> nm = name p
        \<and> c = str_join doc_sep (yaml_docs em ty fs p))"
  by (auto simp: entries_of_def)

lemma set_candidates [simp]:
  "set (candidates fs source recursive) = set (expand_paths fs source recursive)"
  by (simp add: candidates_def)

lemma generate_yaml_dir:
  assumes d: "is_dir (files w) source"
    and l: "list_all (loads em (files w)) (expand_paths (files w) source recursive)"
    and a: "dest_free (files w) dest"
    and o: "outputs_free em ty (files w) dest (expand_paths (files w) source recursive)"
  shows "\<exists>fs'. generate_yaml em ty source (Some dest) recursive w = (None, w\<lparr>files := fs'\<rparr>)
           \<and> (\<forall>q. stat fs' q =
                 (case written dest
                         (entries_of em ty (files w) (candidates (files w) source recursive)) q of
                    Some c \<Rightarrow> Some (IsFile c)
                  | None \<Rightarrow> if prefix q dest then Some IsDir else stat (files w) q))"
proof -
  define E where "E = entries_of em ty (files w) (candidates (files w) source recursive)"
  have c: "collect em ty (files w) (sort (expand_paths (files w) source recursive)) [] = Inr E"
    using collect_loads[of em "files w" "candidates (files w) source recursive" ty "[]"] l
    by (simp add: list_all_candidates E_def) (simp add: candidates_def)
  from makedirs_succeeds[OF a] obtain fs1 where fs1: "makedirs (files w) dest = Inr fs1" by blast
  note st1 = stat_makedirs[OF fs1]
  have d1: "is_dir fs1 dest" using st1[of dest] by (simp add: is_dir_def)
  have ne: "nm \<noteq> []" if "(nm, c) \<in> set E" for nm c
  proof -
    from that obtain p where "p \<in> set (expand_paths (files w) source recursive)" "nm = name p"
      by (auto simp: E_def entries_of_set)
    with expand_paths_py[OF d] have "suffix_of nm = ''.py''" by blast
    then show ?thesis by (auto simp: suffix_of_def)
  qed
  have nd: "\<not> is_dir fs1 q" if "(nm, c) \<in> set E" "output_path dest nm = Inr q" for nm c q
  proof -
    from that(1) obtain p where p: "p \<in> set (expand_paths (files w) source recursive)"
      "nm = name p" "yaml_docs em ty (files w) p \<noteq> []"
      by (auto simp: E_def entries_of_set)
    from o p that(2) have "\<not> is_dir (files w) q"
      by (auto simp: outputs_free_def list_all_iff)
    moreover have "\<not> prefix q dest"
      using that(2) with_suffix_yaml[OF ne[OF that(1)], of dest] by auto
    ultimately show ?thesis using st1[of q] by (simp add: is_dir_def)
  qed
  have "\<exists>fs'. write_outputs dest E fs1 = (None, fs')"
  proof (rule write_outputs_succeeds[OF d1])
    show "\<And>nm c. (nm, c) \<in> set E \<Longrightarrow> nm \<noteq> []" by (rule ne)
    show "\<And>nm c q. (nm, c) \<in> set E \<Longrightarrow> output_path dest nm = Inr q \<Longrightarrow> \<not> is_dir fs1 q"
      by (rule nd)
  qed
  then obtain fs' where fs': "write_outputs dest E fs1 = (None, fs')" by blast
  have run: "generate_yaml em ty source (Some dest) recursive w = (None, w\<lparr>files := fs'\<rparr>)"
    using d dest_free_not_file[OF a] by (simp add: generate_yaml_def c fs1 fs')
  have "stat fs' q = (case written dest E q of Some c \<Rightarrow> Some (IsFile c)
          | None \<Rightarrow> if prefix q dest then Some IsDir else stat (files w) q)" for q
    unfolding write_outputs_final[OF fs'] st1 ..
  with run show ?thesis unfolding E_def by blast
qed

section \<open>Output to the standard output\<close>

text \<open>
  C1. With no destination, a run whose candidate files all load returns normally, leaves
  the files alone, and appends to the standard output the documents of the contributing
  files, in sorted path order, joined by the separator \<^verbatim>\<open>"\n---\n"\<close>; the document
  of one file is its workflows' serialisations joined by the same separator.
\<close>

theorem stdout_joined_in_sorted_order:
  assumes "list_all (loads exec_module (files w)) (expand_paths (files w) source recursive)"
  shows "generate_yaml exec_module to_yaml source None recursive w =
           (None, w\<lparr>stdout := stdout w @
              str_join ([CHR 0x0A] @ ''---'' @ [CHR 0x0A])
                (map (\<lambda>p. str_join ([CHR 0x0A] @ ''---'' @ [CHR 0x0A])
                              (yaml_docs exec_module to_yaml (files w) p))
                   (filter (\<lambda>p. yaml_docs exec_module to_yaml (files w) p \<noteq> [])
                      (sort (expand_paths (files w) source recursive))))\<rparr>)"
proof -
  have l: "list_all (loads exec_module (files w)) (sort (expand_paths (files w) source recursive))"
    using assms by (simp add: list_all_iff)
  have sep: "[CHR 0x0A] @ ''---'' @ [CHR 0x0A] = doc_sep" by (simp add: doc_sep_def)
  show ?thesis
    unfolding sep
    by (simp add: generate_yaml_def collect_loads[OF l] entries_of_def o_def)
qed

theorem stdout_joined_in_sorted_order_witness:
  "list_all (loads toy_exec_module (files solo_world))
     (expand_paths (files solo_world) [''solo.py''] False)
   \<and> generate_yaml toy_exec_module toy_to_yaml [''solo.py''] None False solo_world =
       (None, solo_world\<lparr>stdout := stdout solo_world @
          str_join ([CHR 0x0A] @ ''---'' @ [CHR 0x0A])
            (map (\<lambda>p. str_join ([CHR 0x0A] @ ''---'' @ [CHR 0x0A])
                          (yaml_docs toy_exec_module toy_to_yaml (files solo_world) p))
               (filter (\<lambda>p. yaml_docs toy_exec_module toy_to_yaml (files solo_world) p \<noteq> [])
                  (sort (expand_paths (files solo_world) [''solo.py''] False))))\<rparr>)
   \<and> generate_yaml toy_exec_module toy_to_yaml [''solo.py''] None False solo_world =
       (None, solo_world\<lparr>stdout := ''X'' @ [CHR 0x0A] @ ''---'' @ [CHR 0x0A] @ ''Y''\<rparr>)
   \<and> generate_yaml toy_exec_module toy_to_yaml [''wf''] None False ac_world =
       (None, ac_world\<lparr>stdout := ''A'' @ [CHR 0x0A] @ ''---'' @ [CHR 0x0A] @ ''C''\<rparr>)"
proof -
  have h: "list_all (loads toy_exec_module (files solo_world))
     (expand_paths (files solo_world) [''solo.py''] False)"
    by code_simp
  have e1: "generate_yaml toy_exec_module toy_to_yaml [''solo.py''] None False solo_world =
       (None, solo_world\<lparr>stdout := ''X'' @ [CHR 0x0A] @ ''---'' @ [CHR 0x0A] @ ''Y''\<rparr>)"
    by code_simp
  have e2: "generate_yaml toy_exec_module toy_to_yaml [''wf''] None False ac_world =
       (None, ac_world\<lparr>stdout := ''A'' @ [CHR 0x0A] @ ''---'' @ [CHR 0x0A] @ ''C''\<rparr>)"
    by code_simp
  from stdout_joined_in_sorted_order[OF h, of toy_to_yaml] h e1 e2 show ?thesis
    by blast
qed

section \<open>Files without workflows, single files, and a destination that is a file\<close>

lemma collect_skips:
  assumes "load_workflows_from_module em fs p0 = Inr []"
  shows "collect em ty fs (xs @ p0 # ys) acc = collect em ty fs (xs @ ys) acc"
proof (induction xs arbitrary: acc)
  case Nil
  then show ?case using assms by simp
next
  case (Cons x xs)
  then show ?case
    by (cases "load_workflows_from_module em fs x") (simp_all add: Let_def)
qed

lemma generate_yaml_frame:
  assumes d: "is_dir (files w) source"
    and run: "generate_yaml em ty source (Some dest) recursive w = (r, w')"
    and ch: "stat (files w') q \<noteq> stat (files w) q"
  shows "prefix q dest \<or>
         (\<exists>p \<in> set (expand_paths (files w) source recursive).
            yaml_docs em ty (files w) p \<noteq> [] \<and> output_path dest (name p) = Inr q)"
proof (cases "collect em ty (files w) (candidates (files w) source recursive) []")
  case (Inl e)
  with run ch show ?thesis by (simp add: generate_yaml_def candidates_def)
next
  case (Inr pto)
  then have pto: "pto = entries_of em ty (files w) (candidates (files w) source recursive)"
    by (simp add: collect_Inr_iff)
  show ?thesis
  proof (cases "path_exists (files w) dest \<and> \<not> is_dir (files w) dest")
    case True
    with run ch Inr d show ?thesis by (simp add: generate_yaml_def candidates_def)
  next
    case False
    show ?thesis
    proof (cases "makedirs (files w) dest")
      case (Inl e)
      with run ch Inr d False show ?thesis by (auto simp: generate_yaml_def candidates_def)
    next
      case fs1: (Inr fs1)
      obtain r2 fs2 where wo: "write_outputs dest pto fs1 = (r2, fs2)"
        by (cases "write_outputs dest pto fs1")
      from run Inr d False fs1 wo have w': "files w' = fs2"
        by (auto simp: generate_yaml_def candidates_def)
      show ?thesis
      proof (cases "stat fs2 q = stat fs1 q")
        case True
        with ch w' stat_makedirs[OF fs1, of q] show ?thesis by (auto split: if_splits)
      next
        case False
        from write_outputs_frame[OF wo False] obtain nm c
          where "(nm, c) \<in> set pto" "output_path dest nm = Inr q" by auto
        then show ?thesis by (auto simp: pto entries_of_set)
      qed
    qed
  qed
qed

lemma generate_yaml_stdout_kept:
  "generate_yaml em ty source (Some dest) recursive w = (r, w') \<Longrightarrow> stdout w' = stdout w"
  by (auto simp: generate_yaml_def Let_def split: sum.splits if_splits prod.splits)

lemma generate_yaml_stdout_run:
  assumes "generate_yaml em ty source None recursive w = (None, w')"
  shows "w' = w\<lparr>stdout := stdout w @ str_join doc_sep
            (map snd (entries_of em ty (files w) (candidates (files w) source recursive)))\<rparr>"
proof (cases "collect em ty (files w) (candidates (files w) source recursive) []")
  case (Inl e)
  with assms show ?thesis by (simp add: generate_yaml_def candidates_def)
next
  case (Inr pto)
  then have "pto = entries_of em ty (files w) (candidates (files w) source recursive)"
    by (simp add: collect_Inr_iff)
  with assms Inr show ?thesis by (simp add: generate_yaml_def candidates_def)
qed

text \<open>
  C2. A candidate file from which the loader extracts no workflow adds no entry to the
  output list: the list is the one collected without that file. With no destination the
  text written to the standard output is made of the documents of the files that have a
  workflow only. With a directory source and a destination, the path that would be the
  file's output is left exactly as it was, neither created nor rewritten, unless a
  contributing candidate has the same output path.
\<close>

theorem zero_workflow_file_is_skipped:
  assumes "load_workflows_from_module exec_module (files w) p0 = Inr []"
  shows "(\<forall>xs ys acc.
            collect exec_module to_yaml (files w) (xs @ p0 # ys) acc =
            collect exec_module to_yaml (files w) (xs @ ys) acc)
       \<and> (\<forall>w'. generate_yaml exec_module to_yaml source None recursive w = (None, w') \<longrightarrow>
            files w' = files w \<and>
            stdout w' = stdout w @ str_join doc_sep
              (map (\<lambda>p. str_join doc_sep (yaml_docs exec_module to_yaml (files w) p))
                 (filter (\<lambda>p. p \<noteq> p0 \<and> yaml_docs exec_module to_yaml (files w) p \<noteq> [])
                    (candidates (files w) source recursive))))
       \<and> (\<forall>dest r w' q0.
            is_dir (files w) source \<and> p0 \<in> set (candidates (files w) source recursive) \<and>
            generate_yaml exec_module to_yaml source (Some dest) recursive w = (r, w') \<and>
            output_path dest (name p0) = Inr q0 \<and>
            (\<forall>p \<in> set (candidates (files w) source recursive).
               yaml_docs exec_module to_yaml (files w) p \<noteq> [] \<longrightarrow>
               output_path dest (name p) \<noteq> Inr q0) \<longrightarrow>
            stat (files w') q0 = stat (files w) q0 \<and> stdout w' = stdout w)"
proof (intro conjI allI impI)
  fix xs ys acc
  show "collect exec_module to_yaml (files w) (xs @ p0 # ys) acc =
        collect exec_module to_yaml (files w) (xs @ ys) acc"
    by (rule collect_skips[OF assms])
next
  fix w'
  assume run: "generate_yaml exec_module to_yaml source None recursive w = (None, w')"
  note w' = generate_yaml_stdout_run[OF run]
  show "files w' = files w" by (subst w') simp
  have z: "yaml_docs exec_module to_yaml (files w) p0 = []"
    using assms by (simp add: yaml_docs_def)
  have "(\<lambda>p. p \<noteq> p0 \<and> yaml_docs exec_module to_yaml (files w) p \<noteq> []) =
        (\<lambda>p. yaml_docs exec_module to_yaml (files w) p \<noteq> [])"
    using z by auto
  then show "stdout w' = stdout w @ str_join doc_sep
              (map (\<lambda>p. str_join doc_sep (yaml_docs exec_module to_yaml (files w) p))
                 (filter (\<lambda>p. p \<noteq> p0 \<and> yaml_docs exec_module to_yaml (files w) p \<noteq> [])
                    (candidates (files w) source recursive)))"
    by (subst w') (simp add: entries_of_def o_def)
next
  fix dest r w' q0
  assume a: "is_dir (files w) source \<and> p0 \<in> set (candidates (files w) source recursive) \<and>
            generate_yaml exec_module to_yaml source (Some dest) recursive w = (r, w') \<and>
            output_path dest (name p0) = Inr q0 \<and>
            (\<forall>p \<in> set (candidates (files w) source recursive).
               yaml_docs exec_module to_yaml (files w) p \<noteq> [] \<longrightarrow>
               output_path dest (name p) \<noteq> Inr q0)"
  then have d: "is_dir (files w) source"
    and run: "generate_yaml exec_module to_yaml source (Some dest) recursive w = (r, w')"
    and q0: "output_path dest (name p0) = Inr q0"
    and p0: "p0 \<in> set (expand_paths (files w) source recursive)"
    by simp_all
  from expand_paths_py[OF d p0] have "name p0 \<noteq> []" by (auto simp: suffix_of_def)
  from with_suffix_yaml[OF this, of dest] q0 have np: "\<not> prefix q0 dest" by auto
  show "stat (files w') q0 = stat (files w) q0"
  proof (rule ccontr)
    assume "stat (files w') q0 \<noteq> stat (files w) q0"
    from generate_yaml_frame[OF d run this] np a show False by auto
  qed
  show "stdout w' = stdout w" by (rule generate_yaml_stdout_kept[OF run])
qed

theorem zero_workflow_file_is_skipped_witness:
  "load_workflows_from_module toy_exec_module (files ab_world) [''wf'', ''b.py''] = Inr []
   \<and> generate_yaml toy_exec_module toy_to_yaml [''wf''] None False ab_world =
       (None, ab_world\<lparr>stdout := ''A''\<rparr>)
   \<and> generate_yaml toy_exec_module toy_to_yaml [''wf''] (Some [''out'']) False ab_world =
       (None, ab_world\<lparr>files :=
          Dir [(''wf'', Dir [(''b.py'', File ''x''), (''a.py'', File ''A'')]),
               (''out'', Dir [(''a.yaml'', File ''A'')])]\<rparr>)
   \<and> stat (files (snd (generate_yaml toy_exec_module toy_to_yaml [''wf''] (Some [''out''])
                          False ab_world))) [''out'', ''b.yaml'']
       = stat (files ab_world) [''out'', ''b.yaml'']
   \<and> stat (files ab_world) [''out'', ''b.yaml''] = None"
proof -
  let ?run = "generate_yaml toy_exec_module toy_to_yaml [''wf''] (Some [''out'']) False ab_world"
  have h: "load_workflows_from_module toy_exec_module (files ab_world) [''wf'', ''b.py''] = Inr []"
    by code_simp
  have e1: "generate_yaml toy_exec_module toy_to_yaml [''wf''] None False ab_world =
       (None, ab_world\<lparr>stdout := ''A''\<rparr>)"
    by code_simp
  have e2: "?run =
       (None, ab_world\<lparr>files :=
          Dir [(''wf'', Dir [(''b.py'', File ''x''), (''a.py'', File ''A'')]),
               (''out'', Dir [(''a.yaml'', File ''A'')])]\<rparr>)"
    by code_simp
  have e3: "stat (files ab_world) [''out'', ''b.yaml''] = None"
    by code_simp
  have pre: "is_dir (files ab_world) [''wf'']
     \<and> [''wf'', ''b.py''] \<in> set (candidates (files ab_world) [''wf''] False)
     \<and> ?run = (fst ?run, snd ?run)
     \<and> output_path [''out''] (name [''wf'', ''b.py'']) = Inr [''out'', ''b.yaml'']
     \<and> (\<forall>p \<in> set (candidates (files ab_world) [''wf''] False).
           yaml_docs toy_exec_module toy_to_yaml (files ab_world) p \<noteq> [] \<longrightarrow>
           output_path [''out''] (name p) \<noteq> Inr [''out'', ''b.yaml''])"
  proof (intro conjI)
    show "is_dir (files ab_world) [''wf'']" by code_simp
    show "[''wf'', ''b.py''] \<in> set (candidates (files ab_world) [''wf''] False)" by code_simp
    show "?run = (fst ?run, snd ?run)" by simp
    show "output_path [''out''] (name [''wf'', ''b.py'']) = Inr [''out'', ''b.yaml'']"
      by code_simp
    show "\<forall>p \<in> set (candidates (files ab_world) [''wf''] False).
           yaml_docs toy_exec_module toy_to_yaml (files ab_world) p \<noteq> [] \<longrightarrow>
           output_path [''out''] (name p) \<noteq> Inr [''out'', ''b.yaml'']"
      by code_simp
  qed
  from zero_workflow_file_is_skipped[OF h, of toy_to_yaml "[''wf'']" False]
  have "\<forall>dest r w' q0.
          is_dir (files ab_world) [''wf''] \<and>
          [''wf'', ''b.py''] \<in> set (candidates (files ab_world) [''wf''] False) \<and>
          generate_yaml toy_exec_module toy_to_yaml [''wf''] (Some dest) False ab_world = (r, w') \<and>
          output_path dest (name [''wf'', ''b.py'']) = Inr q0 \<and>
          (\<forall>p \<in> set (candidates (files ab_world) [''wf''] False).
             yaml_docs toy_exec_module toy_to_yaml (files ab_world) p \<noteq> [] \<longrightarrow>
             output_path dest (name p) \<noteq> Inr q0) \<longrightarrow>
          stat (files w') q0 = stat (files ab_world) q0 \<and> stdout w' = stdout ab_world"
    by blast
  with pre have "stat (files (snd ?run)) [''out'', ''b.yaml'']
       = stat (files ab_world) [''out'', ''b.yaml'']"
    by blast
  with h e1 e2 e3 show ?thesis by blast
qed

lemma single_file_at_most_one_entry:
  assumes "\<not> is_dir fs source"
    and "collect em ty fs (sort (expand_paths fs source recursive)) [] = Inr pto"
  shows "length pto \<le> 1"
proof -
  have "expand_paths fs source recursive = [source]" using assms(1) by (simp add: expand_paths_def)
  with assms(2) show ?thesis
    by (auto simp: Let_def split: sum.splits if_splits)
qed

lemma single_file_no_workflow_asserts:
  assumes "\<not> is_dir (files w) source"
    and "load_workflows_from_module em (files w) source = Inr []"
  shows "generate_yaml em ty source (Some dest) recursive w = (Some AssertionError, w)"
  using assms by (simp add: generate_yaml_def expand_paths_def)

text \<open>
  C3. A single source file that defines no workflow, with a destination: the output list
  is empty, so the assertion of line 67 fails; the run ends with \<^verbatim>\<open>AssertionError\<close> and
  nothing is written.
\<close>

theorem single_file_assertion_fails:
  "\<not> is_dir (files empty_world) [''empty.py'']
   \<and> load_workflows_from_module toy_exec_module (files empty_world) [''empty.py''] = Inr []
   \<and> collect toy_exec_module toy_to_yaml (files empty_world)
        (sort (expand_paths (files empty_world) [''empty.py''] False)) [] = Inr []
   \<and> generate_yaml toy_exec_module toy_to_yaml [''empty.py''] (Some [''out.yaml'']) False
        empty_world = (Some AssertionError, empty_world)"
  by code_simp

lemma collect_first_failure:
  assumes "list_all (loads em fs) xs" and "load_workflows_from_module em fs p = Inl e"
  shows "collect em ty fs (xs @ p # ys) acc = Inl e"
  using assms(1)
proof (induction xs arbitrary: acc)
  case Nil
  then show ?case using assms(2) by simp
next
  case (Cons x xs)
  then obtain ws where ws: "load_workflows_from_module em fs x = Inr ws"
    by (cases "load_workflows_from_module em fs x") (auto simp: loads_def)
  have "\<And>acc. collect em ty fs (xs @ p # ys) acc = Inl e" using Cons by simp
  then show ?case by (simp add: ws Let_def)
qed

text \<open>
  C4. With a directory source and a destination that exists as a regular file, the run
  fails, and no output file or directory is created or modified: the destination and
  every path below it are as before. The candidate files are loaded before the
  destination is examined: the run ends with the parameter error when every candidate
  loads, and otherwise with the exception of the first candidate, in sorted order, whose
  loading raises.
\<close>

theorem dir_source_file_dest_fails_before_output:
  assumes "is_dir (files w) source" and "is_file (files w) dest"
  shows "\<exists>e w'.
      generate_yaml exec_module to_yaml source (Some dest) recursive w = (Some e, w')
      \<and> (list_all (loads exec_module (files w)) (candidates (files w) source recursive) \<longrightarrow>
           e = BadParameter)
      \<and> (\<forall>xs p ys e'.
            candidates (files w) source recursive = xs @ p # ys
            \<and> list_all (loads exec_module (files w)) xs
            \<and> load_workflows_from_module exec_module (files w) p = Inl e' \<longrightarrow> e = e')
      \<and> (\<forall>q. prefix dest q \<longrightarrow> stat (files w') q = stat (files w) q)"
proof -
  let ?c = "collect exec_module to_yaml (files w) (candidates (files w) source recursive) []"
  define e where "e = (case ?c of Inl e \<Rightarrow> e | Inr path_to_output \<Rightarrow> BadParameter)"
  from assms(2) have g: "path_exists (files w) dest \<and> \<not> is_dir (files w) dest"
    by (auto simp: is_file_def path_exists_def is_dir_def split: option.splits entry.splits)
  have run: "generate_yaml exec_module to_yaml source (Some dest) recursive w = (Some e, w)"
    using assms(1) g
    by (simp add: generate_yaml_def candidates_def e_def split: sum.splits)
  have ok: "e = BadParameter"
    if "list_all (loads exec_module (files w)) (candidates (files w) source recursive)"
    using collect_loads[OF that, of to_yaml "[]"] by (simp add: e_def)
  have first: "e = e'"
    if "candidates (files w) source recursive = xs @ p # ys
        \<and> list_all (loads exec_module (files w)) xs
        \<and> load_workflows_from_module exec_module (files w) p = Inl e'" for xs p ys e'
  proof -
    from that have "?c = Inl e'"
      using collect_first_failure[of exec_module "files w" xs p e' to_yaml ys "[]"] by simp
    then show ?thesis by (simp add: e_def)
  qed
  show ?thesis
  proof (intro exI[of _ e] exI[of _ w] conjI allI impI)
    show "generate_yaml exec_module to_yaml source (Some dest) recursive w = (Some e, w)"
      by (rule run)
    show "list_all (loads exec_module (files w)) (candidates (files w) source recursive)
          \<Longrightarrow> e = BadParameter" by (rule ok)
    show "\<And>xs p ys e'. candidates (files w) source recursive = xs @ p # ys
        \<and> list_all (loads exec_module (files w)) xs
        \<and> load_workflows_from_module exec_module (files w) p = Inl e' \<Longrightarrow> e = e'"
      by (rule first)
    show "\<And>q. stat (files w) q = stat (files w) q" by simp
  qed
qed

theorem dir_source_file_dest_fails_before_output_witness:
  "is_dir (files clash_world) [''wf''] \<and> is_file (files clash_world) [''out.txt'']
   \<and> list_all (loads toy_exec_module (files clash_world))
        (candidates (files clash_world) [''wf''] False)
   \<and> (\<exists>w'. generate_yaml toy_exec_module toy_to_yaml [''wf''] (Some [''out.txt'']) False
               clash_world = (Some BadParameter, w')
          \<and> (\<forall>q. prefix [''out.txt''] q \<longrightarrow> stat (files w') q = stat (files clash_world) q))
   \<and> is_dir (files two_bad_world) [''wf''] \<and> is_file (files two_bad_world) [''out.txt'']
   \<and> candidates (files two_bad_world) [''wf''] False
        = [] @ [''wf'', ''a.py''] # [[''wf'', ''b.py'']]
   \<and> load_workflows_from_module toy_exec_module (files two_bad_world) [''wf'', ''a.py'']
        = Inl (ImportFailure ''!a'')
   \<and> load_workflows_from_module toy_exec_module (files two_bad_world) [''wf'', ''b.py'']
        = Inl (ImportFailure ''!b'')
   \<and> (\<exists>w'. generate_yaml toy_exec_module toy_to_yaml [''wf''] (Some [''out.txt'']) False
               two_bad_world = (Some (ImportFailure ''!a''), w')
          \<and> (\<forall>q. prefix [''out.txt''] q \<longrightarrow> stat (files w') q = stat (files two_bad_world) q))"
proof -
  have d: "is_dir (files clash_world) [''wf'']" by code_simp
  have f: "is_file (files clash_world) [''out.txt'']" by code_simp
  have l: "list_all (loads toy_exec_module (files clash_world))
        (candidates (files clash_world) [''wf''] False)" by code_simp
  have d2: "is_dir (files two_bad_world) [''wf'']" by code_simp
  have f2: "is_file (files two_bad_world) [''out.txt'']" by code_simp
  have c2: "candidates (files two_bad_world) [''wf''] False
        = [] @ [''wf'', ''a.py''] # [[''wf'', ''b.py'']]" by code_simp
  have a2: "load_workflows_from_module toy_exec_module (files two_bad_world) [''wf'', ''a.py'']
        = Inl (ImportFailure ''!a'')" by code_simp
  have b2: "load_workflows_from_module toy_exec_module (files two_bad_world) [''wf'', ''b.py'']
        = Inl (ImportFailure ''!b'')" by code_simp
  have n2: "list_all (loads toy_exec_module (files two_bad_world)) []" by simp
  from dir_source_file_dest_fails_before_output[OF d f, of toy_exec_module toy_to_yaml False] l
  have one: "\<exists>w'. generate_yaml toy_exec_module toy_to_yaml [''wf''] (Some [''out.txt'']) False
               clash_world = (Some BadParameter, w')
          \<and> (\<forall>q. prefix [''out.txt''] q \<longrightarrow> stat (files w') q = stat (files clash_world) q)"
    by blast
  from dir_source_file_dest_fails_before_output[OF d2 f2, of toy_exec_module toy_to_yaml False]
    c2 a2 n2
  have two: "\<exists>w'. generate_yaml toy_exec_module toy_to_yaml [''wf''] (Some [''out.txt'']) False
               two_bad_world = (Some (ImportFailure ''!a''), w')
          \<and> (\<forall>q. prefix [''out.txt''] q \<longrightarrow> stat (files w') q = stat (files two_bad_world) q)"
    by blast
  show ?thesis
    by (intro conjI d f l one d2 f2 c2 a2 b2 two)
qed

theorem parameter_error_preempted_counterexample:
  "is_dir (files broken_world) [''wf''] \<and> is_file (files broken_world) [''out.txt'']
   \<and> generate_yaml toy_exec_module toy_to_yaml [''wf''] (Some [''out.txt'']) False broken_world =
       (Some (ImportFailure ''!''), broken_world)
   \<and> fst (generate_yaml toy_exec_module toy_to_yaml [''wf''] (Some [''out.txt'']) False
            broken_world) \<noteq> Some BadParameter"
  by code_simp

section \<open>Writing into a destination directory\<close>

lemma written_SomeD:
  "written dest entries q = Some c \<Longrightarrow> \<exists>nm. (nm, c) \<in> set entries \<and> output_path dest nm = Inr q"
  unfolding written_def by (drule map_of_SomeD) auto

lemma written_Nil [simp]: "written dest [] q = None"
  by (simp add: written_def)

lemma written_not_prefix:
  assumes "\<And>nm c. (nm, c) \<in> set entries \<Longrightarrow> nm \<noteq> []" and "prefix q dest"
  shows "written dest entries q = None"
proof (cases "written dest entries q")
  case None
  then show ?thesis .
next
  case (Some c)
  from written_SomeD[OF this] obtain nm where nm: "(nm, c) \<in> set entries"
    "output_path dest nm = Inr q" by blast
  from with_suffix_yaml[OF assms(1)[OF nm(1)], of dest] nm(2) assms(2) show ?thesis by auto
qed

lemma last_binding:
  assumes "sorted ps" and "x \<in> set ps" and "\<And>y. y \<in> set ps \<Longrightarrow> k y = k x \<Longrightarrow> y \<le> x"
  shows "map_of (rev (map (\<lambda>p. (k p, v p)) ps)) (k x) = Some (v x)"
  using assms
proof (induction ps rule: rev_induct)
  case Nil
  then show ?case by simp
next
  case (snoc z ys)
  show ?case
  proof (cases "k z = k x")
    case True
    then have "z \<le> x" using snoc.prems(3) by simp
    moreover have "x \<le> z" using snoc.prems(1,2) by (auto simp: sorted_append)
    ultimately show ?thesis by simp
  next
    case False
    then have "x \<in> set ys" using snoc.prems(2) by auto
    moreover have "sorted ys" using snoc.prems(1) by (simp add: sorted_append)
    ultimately have "map_of (rev (map (\<lambda>p. (k p, v p)) ys)) (k x) = Some (v x)"
      using snoc.IH snoc.prems(3) by simp
    with False show ?thesis by simp
  qed
qed

lemma written_entries_of:
  "written dest (entries_of em ty fs ps) q =
     map_of (rev (map (\<lambda>p. (output_path dest (name p), str_join doc_sep (yaml_docs em ty fs p)))
                    (filter (\<lambda>p. yaml_docs em ty fs p \<noteq> []) ps))) (Inr q)"
  by (simp add: written_def entries_of_def o_def)

lemma entries_of_py:
  assumes "is_dir fs source"
    and "(nm, c) \<in> set (entries_of em ty fs (candidates fs source recursive))"
  shows "suffix_of nm = ''.py''"
  using assms by (auto simp: entries_of_set dest: expand_paths_py)

text \<open>
  C5. With a directory source whose candidates all load, a destination none of whose
  prefixes is a regular file, and no output path that is an existing directory, the run
  returns normally: the destination and every directory above it exist afterwards, each
  entry's name ends in \<^verbatim>\<open>.py\<close> and its output path is the destination joined with the
  name in which \<^verbatim>\<open>.yaml\<close> replaces \<^verbatim>\<open>.py\<close>, every output path holds the text of the
  last entry written to it (of its one entry when the names differ), and every other path
  outside the destination's prefixes is as before.
\<close>

theorem directory_source_writes_yaml_files:
  assumes "is_dir (files w) source"
    and "list_all (loads exec_module (files w)) (expand_paths (files w) source recursive)"
    and "dest_free (files w) dest"
    and "outputs_free exec_module to_yaml (files w) dest (expand_paths (files w) source recursive)"
  shows "\<exists>fs'.
      generate_yaml exec_module to_yaml source (Some dest) recursive w = (None, w\<lparr>files := fs'\<rparr>)
      \<and> (\<forall>q. prefix q dest \<longrightarrow> is_dir fs' q)
      \<and> (\<forall>nm c. (nm, c) \<in> set (entries_of exec_module to_yaml (files w)
                                  (candidates (files w) source recursive)) \<longrightarrow>
            (\<exists>stem. stem \<noteq> [] \<and> nm = stem @ ''.py''
               \<and> output_path dest nm = Inr (dest @ [stem @ ''.yaml''])))
      \<and> (\<forall>q. stat fs' q =
            (case written dest (entries_of exec_module to_yaml (files w)
                                 (candidates (files w) source recursive)) q of
               Some c \<Rightarrow> Some (IsFile c)
             | None \<Rightarrow> if prefix q dest then Some IsDir else stat (files w) q))
      \<and> (distinct (map fst (entries_of exec_module to_yaml (files w)
                               (candidates (files w) source recursive))) \<longrightarrow>
           (\<forall>nm c q. (nm, c) \<in> set (entries_of exec_module to_yaml (files w)
                                     (candidates (files w) source recursive))
              \<and> output_path dest nm = Inr q \<longrightarrow> stat fs' q = Some (IsFile c)))"
proof -
  define E where "E = entries_of exec_module to_yaml (files w) (candidates (files w) source recursive)"
  from generate_yaml_dir[OF assms] obtain fs' where
    run: "generate_yaml exec_module to_yaml source (Some dest) recursive w = (None, w\<lparr>files := fs'\<rparr>)"
    and st: "\<And>q. stat fs' q = (case written dest E q of Some c \<Rightarrow> Some (IsFile c)
                | None \<Rightarrow> if prefix q dest then Some IsDir else stat (files w) q)"
    unfolding E_def by blast
  have py: "suffix_of nm = ''.py''" if "(nm, c) \<in> set E" for nm c
    using entries_of_py[OF assms(1)] that unfolding E_def by blast
  have ne: "nm \<noteq> []" if "(nm, c) \<in> set E" for nm c
    using py[OF that] by (auto simp: suffix_of_def)
  have dirs: "is_dir fs' q" if "prefix q dest" for q
    using st[of q] written_not_prefix[of E q dest, OF ne that] that by (simp add: is_dir_def)
  have names: "\<exists>stem. stem \<noteq> [] \<and> nm = stem @ ''.py''
               \<and> output_path dest nm = Inr (dest @ [stem @ ''.yaml''])"
    if "(nm, c) \<in> set E" for nm c
  proof -
    from py[OF that] obtain stem where "stem \<noteq> []" "nm = stem @ ''.py''"
      using suffix_of_py_iff by blast
    then show ?thesis using output_path_py[of stem dest] by blast
  qed
  have each: "stat fs' q = Some (IsFile c)"
    if dist: "distinct (map fst E)" and m: "(nm, c) \<in> set E" and q: "output_path dest nm = Inr q"
    for nm c q
  proof -
    let ?L = "map (\<lambda>(nm, content). (output_path dest nm, content)) E"
    have inj: "inj_on (output_path dest) (fst ` set E)"
    proof (rule inj_onI)
      fix a b assume "a \<in> fst ` set E" "b \<in> fst ` set E" "output_path dest a = output_path dest b"
      then obtain ca cb where "(a, ca) \<in> set E" "(b, cb) \<in> set E"
        and eq: "output_path dest a = output_path dest b" by auto
      then have "suffix_of a = ''.py''" "suffix_of b = ''.py''" using py by blast+
      then show "a = b" using eq by (rule output_path_inj)
    qed
    have eqL: "map fst ?L = map (output_path dest) (map fst E)" by (induction E) auto
    have "distinct (map (output_path dest) (map fst E))"
      by (subst distinct_map) (use dist inj in simp)
    then have "distinct (map fst ?L)" unfolding eqL .
    then have "distinct (map fst (rev ?L))" by (simp add: rev_map[symmetric])
    moreover have "(Inr q, c) \<in> set (rev ?L)" using m q by force
    ultimately have "map_of (rev ?L) (Inr q) = Some c" by (simp add: map_of_eq_Some_iff)
    then have "written dest E q = Some c" by (simp add: written_def)
    then show ?thesis using st[of q] by simp
  qed
  show ?thesis
    unfolding E_def[symmetric]
  proof (intro exI[of _ fs'] conjI allI impI)
    show "generate_yaml exec_module to_yaml source (Some dest) recursive w = (None, w\<lparr>files := fs'\<rparr>)"
      by (rule run)
    show "\<And>q. prefix q dest \<Longrightarrow> is_dir fs' q" by (rule dirs)
    show "\<And>nm c. (nm, c) \<in> set E \<Longrightarrow> \<exists>stem. stem \<noteq> [] \<and> nm = stem @ ''.py''
               \<and> output_path dest nm = Inr (dest @ [stem @ ''.yaml''])"
      by (rule names)
    show "\<And>q. stat fs' q = (case written dest E q of Some c \<Rightarrow> Some (IsFile c)
                | None \<Rightarrow> if prefix q dest then Some IsDir else stat (files w) q)"
      by (rule st)
    show "\<And>nm c q. distinct (map fst E) \<Longrightarrow> (nm, c) \<in> set E \<and> output_path dest nm = Inr q
            \<Longrightarrow> stat fs' q = Some (IsFile c)"
      using each by blast
  qed
qed

theorem directory_source_writes_yaml_files_witness:
  "is_dir (files ac_world) [''wf'']
   \<and> list_all (loads toy_exec_module (files ac_world)) (expand_paths (files ac_world) [''wf''] False)
   \<and> dest_free (files ac_world) [''out'']
   \<and> outputs_free toy_exec_module toy_to_yaml (files ac_world) [''out'']
        (expand_paths (files ac_world) [''wf''] False)
   \<and> (\<exists>fs'. generate_yaml toy_exec_module toy_to_yaml [''wf''] (Some [''out'']) False ac_world
              = (None, ac_world\<lparr>files := fs'\<rparr>)
          \<and> (\<forall>q. prefix q [''out''] \<longrightarrow> is_dir fs' q))
   \<and> entries_of toy_exec_module toy_to_yaml (files ac_world)
        (candidates (files ac_world) [''wf''] False) = [(''a.py'', ''A''), (''c.py'', ''C'')]
   \<and> generate_yaml toy_exec_module toy_to_yaml [''wf''] (Some [''out'']) False ac_world =
       (None, ac_world\<lparr>files :=
          Dir [(''wf'', Dir [(''c.py'', File ''C''), (''a.py'', File ''A'')]),
               (''out'', Dir [(''a.yaml'', File ''A''), (''c.yaml'', File ''C'')])]\<rparr>)"
proof -
  have d: "is_dir (files ac_world) [''wf'']" by code_simp
  have l: "list_all (loads toy_exec_module (files ac_world))
             (expand_paths (files ac_world) [''wf''] False)" by code_simp
  have f: "dest_free (files ac_world) [''out'']" by code_simp
  have o: "outputs_free toy_exec_module toy_to_yaml (files ac_world) [''out'']
        (expand_paths (files ac_world) [''wf''] False)" by code_simp
  have e: "entries_of toy_exec_module toy_to_yaml (files ac_world)
        (candidates (files ac_world) [''wf''] False) = [(''a.py'', ''A''), (''c.py'', ''C'')]"
    by code_simp
  have r: "generate_yaml toy_exec_module toy_to_yaml [''wf''] (Some [''out'']) False ac_world =
       (None, ac_world\<lparr>files :=
          Dir [(''wf'', Dir [(''c.py'', File ''C''), (''a.py'', File ''A'')]),
               (''out'', Dir [(''a.yaml'', File ''A''), (''c.yaml'', File ''C'')])]\<rparr>)"
    by code_simp
  from directory_source_writes_yaml_files[OF d l f o]
  have "\<exists>fs'. generate_yaml toy_exec_module toy_to_yaml [''wf''] (Some [''out'']) False ac_world
              = (None, ac_world\<lparr>files := fs'\<rparr>)
          \<and> (\<forall>q. prefix q [''out''] \<longrightarrow> is_dir fs' q)"
    by blast
  with d l f o e r show ?thesis by blast
qed

theorem file_source_dir_dest_counterexample:
  "\<not> is_dir (files file_to_dir_world) [''solo.py'']
   \<and> is_dir (files file_to_dir_world) [''out'']
   \<and> entries_of toy_exec_module toy_to_yaml (files file_to_dir_world)
        (candidates (files file_to_dir_world) [''solo.py''] False) = [(''solo.py'', ''S'')]
   \<and> generate_yaml toy_exec_module toy_to_yaml [''solo.py''] (Some [''out'']) False
        file_to_dir_world = (Some IsADirectoryError, file_to_dir_world)
   \<and> output_path [''out''] ''solo.py'' = Inr [''out'', ''solo.yaml'']
   \<and> stat (files (snd (generate_yaml toy_exec_module toy_to_yaml [''solo.py''] (Some [''out''])
                          False file_to_dir_world))) [''out'', ''solo.yaml''] = None"
  by code_simp

text \<open>
  C9. With a directory source, recursion on and a destination, an output path is the
  destination joined with the candidate's base name in which \<^verbatim>\<open>.yaml\<close> replaces
  \<^verbatim>\<open>.py\<close>; the subdirectory of the candidate plays no part. Of two contributing
  candidates with the same base name, the one later in sorted order, when no contributing
  candidate of that name follows it, is the one whose text the shared output path holds
  after the run, which returns normally.
\<close>

theorem same_name_later_overwrites:
  assumes "is_dir (files w) source"
    and "list_all (loads exec_module (files w)) (expand_paths (files w) source True)"
    and "dest_free (files w) dest"
    and "outputs_free exec_module to_yaml (files w) dest (expand_paths (files w) source True)"
    and "p1 \<in> set (expand_paths (files w) source True)"
    and "p2 \<in> set (expand_paths (files w) source True)"
    and "name p1 = name p2" and "p1 < p2"
    and "yaml_docs exec_module to_yaml (files w) p1 \<noteq> []"
    and "yaml_docs exec_module to_yaml (files w) p2 \<noteq> []"
    and "\<forall>p \<in> set (expand_paths (files w) source True).
           name p = name p2 \<and> yaml_docs exec_module to_yaml (files w) p \<noteq> [] \<longrightarrow> p \<le> p2"
  shows "\<exists>fs' stem.
      generate_yaml exec_module to_yaml source (Some dest) True w = (None, w\<lparr>files := fs'\<rparr>)
      \<and> name p2 = stem @ ''.py''
      \<and> output_path dest (name p1) = Inr (dest @ [stem @ ''.yaml''])
      \<and> output_path dest (name p2) = Inr (dest @ [stem @ ''.yaml''])
      \<and> stat fs' (dest @ [stem @ ''.yaml'']) =
          Some (IsFile (str_join doc_sep (yaml_docs exec_module to_yaml (files w) p2)))"
proof -
  let ?C = "\<lambda>p. yaml_docs exec_module to_yaml (files w) p \<noteq> []"
  let ?ps = "filter ?C (candidates (files w) source True)"
  from generate_yaml_dir[OF assms(1-4)] obtain fs' where
    run: "generate_yaml exec_module to_yaml source (Some dest) True w = (None, w\<lparr>files := fs'\<rparr>)"
    and st: "\<And>q. stat fs' q =
       (case written dest (entries_of exec_module to_yaml (files w)
                             (candidates (files w) source True)) q of
          Some c \<Rightarrow> Some (IsFile c)
        | None \<Rightarrow> if prefix q dest then Some IsDir else stat (files w) q)"
    by blast
  from expand_paths_py[OF assms(1,6)] obtain stem where stem: "stem \<noteq> []" "name p2 = stem @ ''.py''"
    using suffix_of_py_iff by blast
  have op: "output_path dest (name p2) = Inr (dest @ [stem @ ''.yaml''])"
    using stem output_path_py[of stem dest] by simp
  have sorted: "sorted ?ps" unfolding candidates_def by (rule sorted_wrt_filter) simp
  have mem: "p2 \<in> set ?ps" using assms(6,10) by simp
  have last: "y \<le> p2" if "y \<in> set ?ps" "output_path dest (name y) = output_path dest (name p2)" for y
  proof -
    from that(1) have y: "y \<in> set (expand_paths (files w) source True)" "?C y" by simp_all
    have "name y = name p2"
      using expand_paths_py[OF assms(1) y(1)] expand_paths_py[OF assms(1,6)] that(2)
      by (rule output_path_inj)
    with assms(11) y show ?thesis by blast
  qed
  have "map_of (rev (map (\<lambda>p. (output_path dest (name p),
                                 str_join doc_sep (yaml_docs exec_module to_yaml (files w) p))) ?ps))
          (output_path dest (name p2))
        = Some (str_join doc_sep (yaml_docs exec_module to_yaml (files w) p2))"
    using sorted mem last by (rule last_binding)
  then have "written dest (entries_of exec_module to_yaml (files w)
                (candidates (files w) source True)) (dest @ [stem @ ''.yaml''])
        = Some (str_join doc_sep (yaml_docs exec_module to_yaml (files w) p2))"
    unfolding written_entries_of op .
  then have "stat fs' (dest @ [stem @ ''.yaml'']) =
          Some (IsFile (str_join doc_sep (yaml_docs exec_module to_yaml (files w) p2)))"
    using st[of "dest @ [stem @ ''.yaml'']"] by simp
  with run stem op assms(7) show ?thesis by auto
qed

theorem same_name_later_overwrites_witness:
  "is_dir (files twin_world) [''wf'']
   \<and> [''wf'', ''a'', ''x.py''] \<in> set (expand_paths (files twin_world) [''wf''] True)
   \<and> [''wf'', ''b'', ''x.py''] \<in> set (expand_paths (files twin_world) [''wf''] True)
   \<and> [''wf'', ''a'', ''x.py''] < [''wf'', ''b'', ''x.py'']
   \<and> (\<exists>fs' stem.
        generate_yaml toy_exec_module toy_to_yaml [''wf''] (Some [''out'']) True twin_world
          = (None, twin_world\<lparr>files := fs'\<rparr>)
        \<and> name [''wf'', ''b'', ''x.py''] = stem @ ''.py''
        \<and> output_path [''out''] (name [''wf'', ''a'', ''x.py'']) = Inr ([''out''] @ [stem @ ''.yaml''])
        \<and> output_path [''out''] (name [''wf'', ''b'', ''x.py'']) = Inr ([''out''] @ [stem @ ''.yaml''])
        \<and> stat fs' ([''out''] @ [stem @ ''.yaml'']) =
            Some (IsFile (str_join doc_sep
                    (yaml_docs toy_exec_module toy_to_yaml (files twin_world) [''wf'', ''b'', ''x.py'']))))
   \<and> generate_yaml toy_exec_module toy_to_yaml [''wf''] (Some [''out'']) True twin_world =
       (None, twin_world\<lparr>files :=
          Dir [(''wf'', Dir [(''b'', Dir [(''x.py'', File ''B'')]),
                            (''a'', Dir [(''x.py'', File ''A'')])]),
               (''out'', Dir [(''x.yaml'', File ''B'')])]\<rparr>)"
proof -
  have h1: "is_dir (files twin_world) [''wf'']" by code_simp
  have h2: "list_all (loads toy_exec_module (files twin_world))
              (expand_paths (files twin_world) [''wf''] True)" by code_simp
  have h3: "dest_free (files twin_world) [''out'']" by code_simp
  have h4: "outputs_free toy_exec_module toy_to_yaml (files twin_world) [''out'']
              (expand_paths (files twin_world) [''wf''] True)" by code_simp
  have h5: "[''wf'', ''a'', ''x.py''] \<in> set (expand_paths (files twin_world) [''wf''] True)"
    by code_simp
  have h6: "[''wf'', ''b'', ''x.py''] \<in> set (expand_paths (files twin_world) [''wf''] True)"
    by code_simp
  have h7: "name [''wf'', ''a'', ''x.py''] = name [''wf'', ''b'', ''x.py'']" by code_simp
  have h8: "[''wf'', ''a'', ''x.py''] < [''wf'', ''b'', ''x.py'']" by code_simp
  have h9: "yaml_docs toy_exec_module toy_to_yaml (files twin_world) [''wf'', ''a'', ''x.py''] \<noteq> []"
    by code_simp
  have h10: "yaml_docs toy_exec_module toy_to_yaml (files twin_world) [''wf'', ''b'', ''x.py''] \<noteq> []"
    by code_simp
  have h11: "\<forall>p \<in> set (expand_paths (files twin_world) [''wf''] True).
           name p = name [''wf'', ''b'', ''x.py'']
           \<and> yaml_docs toy_exec_module toy_to_yaml (files twin_world) p \<noteq> []
           \<longrightarrow> p \<le> [''wf'', ''b'', ''x.py'']" by code_simp
  have r: "generate_yaml toy_exec_module toy_to_yaml [''wf''] (Some [''out'']) True twin_world =
       (None, twin_world\<lparr>files :=
          Dir [(''wf'', Dir [(''b'', Dir [(''x.py'', File ''B'')]),
                            (''a'', Dir [(''x.py'', File ''A'')])]),
               (''out'', Dir [(''x.yaml'', File ''B'')])]\<rparr>)"
    by code_simp
  note t = same_name_later_overwrites[OF h1 h2 h3 h4 h5 h6 h7 h8 h9 h10 h11]
  show ?thesis
    by (intro conjI h1 h5 h6 h8 t r)
qed

text \<open>
  C10. With a directory source whose candidates all load and have no workflow, and a
  destination none of whose prefixes is a regular file, the run returns normally; the
  destination and every directory above it exist afterwards, and every path below the
  destination is as it was before, so the destination holds no newly written output file.
\<close>

theorem destination_created_without_outputs:
  assumes "is_dir (files w) source"
    and "list_all (\<lambda>p. load_workflows_from_module exec_module (files w) p = Inr [])
           (expand_paths (files w) source recursive)"
    and "dest_free (files w) dest"
  shows "\<exists>w'.
      generate_yaml exec_module to_yaml source (Some dest) recursive w = (None, w')
      \<and> (\<forall>q. prefix q dest \<longrightarrow> is_dir (files w') q)
      \<and> (\<forall>q. strict_prefix dest q \<longrightarrow> stat (files w') q = stat (files w) q)"
proof -
  have z: "yaml_docs exec_module to_yaml (files w) p = []"
    if "p \<in> set (expand_paths (files w) source recursive)" for p
    using assms(2) that by (auto simp: list_all_iff yaml_docs_def)
  have l: "list_all (loads exec_module (files w)) (expand_paths (files w) source recursive)"
    using assms(2) by (auto simp: list_all_iff loads_def)
  have o: "outputs_free exec_module to_yaml (files w) dest (expand_paths (files w) source recursive)"
    using z by (simp add: outputs_free_def list_all_iff)
  have e: "entries_of exec_module to_yaml (files w) (candidates (files w) source recursive) = []"
    using z by (auto simp: entries_of_def filter_empty_conv)
  from generate_yaml_dir[OF assms(1) l assms(3) o] obtain fs' where
    run: "generate_yaml exec_module to_yaml source (Some dest) recursive w = (None, w\<lparr>files := fs'\<rparr>)"
    and st: "\<And>q. stat fs' q = (if prefix q dest then Some IsDir else stat (files w) q)"
    unfolding e by auto
  have below: "\<not> prefix q dest" if "strict_prefix dest q" for q
    using that by (auto simp: strict_prefix_def dest: prefix_order.antisym)
  show ?thesis
  proof (intro exI[of _ "w\<lparr>files := fs'\<rparr>"] conjI allI impI)
    show "generate_yaml exec_module to_yaml source (Some dest) recursive w = (None, w\<lparr>files := fs'\<rparr>)"
      by (rule run)
    show "\<And>q. prefix q dest \<Longrightarrow> is_dir (files (w\<lparr>files := fs'\<rparr>)) q"
      by (simp add: st is_dir_def)
    show "\<And>q. strict_prefix dest q \<Longrightarrow> stat (files (w\<lparr>files := fs'\<rparr>)) q = stat (files w) q"
      using below by (simp add: st)
  qed
qed

theorem destination_created_without_outputs_witness:
  "is_dir (files idle_world) [''wf'']
   \<and> list_all (\<lambda>p. load_workflows_from_module toy_exec_module (files idle_world) p = Inr [])
        (expand_paths (files idle_world) [''wf''] False)
   \<and> dest_free (files idle_world) [''build'', ''out'']
   \<and> (\<exists>w'. generate_yaml toy_exec_module toy_to_yaml [''wf''] (Some [''build'', ''out'']) False
               idle_world = (None, w')
          \<and> (\<forall>q. prefix q [''build'', ''out''] \<longrightarrow> is_dir (files w') q)
          \<and> (\<forall>q. strict_prefix [''build'', ''out''] q \<longrightarrow>
                 stat (files w') q = stat (files idle_world) q))
   \<and> generate_yaml toy_exec_module toy_to_yaml [''wf''] (Some [''build'', ''out'']) False
        idle_world =
       (None, idle_world\<lparr>files :=
          Dir [(''wf'', Dir [(''b.py'', File ''x'')]), (''f'', File ''t''),
               (''build'', Dir [(''out'', Dir [])])]\<rparr>)"
proof -
  have h1: "is_dir (files idle_world) [''wf'']" by code_simp
  have h2: "list_all (\<lambda>p. load_workflows_from_module toy_exec_module (files idle_world) p = Inr [])
        (expand_paths (files idle_world) [''wf''] False)" by code_simp
  have h3: "dest_free (files idle_world) [''build'', ''out'']" by code_simp
  have r: "generate_yaml toy_exec_module toy_to_yaml [''wf''] (Some [''build'', ''out'']) False
        idle_world =
       (None, idle_world\<lparr>files :=
          Dir [(''wf'', Dir [(''b.py'', File ''x'')]), (''f'', File ''t''),
               (''build'', Dir [(''out'', Dir [])])]\<rparr>)" by code_simp
  note t = destination_created_without_outputs[OF h1 h2 h3, of toy_to_yaml]
  show ?thesis
    by (intro conjI h1 h2 h3 t r)
qed

theorem destination_below_file_counterexample:
  "is_dir (files idle_world) [''wf'']
   \<and> \<not> (path_exists (files idle_world) [''f'', ''out''] \<and> \<not> is_dir (files idle_world) [''f'', ''out''])
   \<and> list_all (\<lambda>p. load_workflows_from_module toy_exec_module (files idle_world) p = Inr [])
        (expand_paths (files idle_world) [''wf''] False)
   \<and> generate_yaml toy_exec_module toy_to_yaml [''wf''] (Some [''f'', ''out'']) False idle_world =
       (Some NotADirectoryError, idle_world)
   \<and> \<not> is_dir (files (snd (generate_yaml toy_exec_module toy_to_yaml [''wf'']
                              (Some [''f'', ''out'']) False idle_world))) [''f'', ''out'']"
  by code_simp

end
